(* ===== verification/Go_Prelude.thy ===== *)
theory Go_Prelude
  imports Main "HOL-Library.AList"
begin

text \<open>
  Prelude of the development: the collections of rewrite rules that carry the component
  proofs, Go's 64-bit signed arithmetic, and the generic facts on lists and association
  lists that several components share.

  A Go map is an association list with distinct keys: \<open>AList.update\<close> stores a key,
  \<open>AList.delete\<close> removes it, \<open>map_of\<close> looks it up and \<open>length\<close> counts it.
\<close>

named_theorems prog_simps
  \<open>equations that run a program of the effect language symbolically\<close>

named_theorems go_defs
  \<open>the definitions of the model's small operations, for unfolding\<close>

named_theorems safe_ops
  \<open>which operations a routine may perform\<close>

section \<open>Sums\<close>

definition map_err :: "('e \<Rightarrow> 'f) \<Rightarrow> 'e + 'a \<Rightarrow> 'f + 'a" where
  "map_err f r = (case r of Inl e \<Rightarrow> Inl (f e) | Inr x \<Rightarrow> Inr x)"

lemma map_err_simps [simp]:
  "map_err f (Inl e) = Inl (f e)" "map_err f (Inr x) = Inr x"
  by (simp_all add: map_err_def)

lemma map_err_Inr_iff [simp]: "map_err f r = Inr x \<longleftrightarrow> r = Inr x"
  by (cases r) simp_all

section \<open>Machine integers\<close>

text \<open>
  Go's \<open>int\<close>, \<open>int64\<close> and \<open>time.Duration\<close> are 64-bit two's complement. Values are
  kept as \<open>int\<close>, and \<open>s64\<close> wraps the result of an operation that may overflow.
\<close>

definition max_int64 :: int where "max_int64 = 2 ^ 63 - 1"
definition min_int64 :: int where "min_int64 = - (2 ^ 63)"

definition s64 :: "int \<Rightarrow> int" where
  "s64 x = (x + 2 ^ 63) mod 2 ^ 64 - 2 ^ 63"

definition int64 :: "int \<Rightarrow> bool" where
  "int64 x \<longleftrightarrow> min_int64 \<le> x \<and> x \<le> max_int64"

lemma s64_id: "int64 x \<Longrightarrow> s64 x = x"
  by (simp add: s64_def int64_def min_int64_def max_int64_def)

lemma int64_s64 [simp]: "int64 (s64 x)"
proof -
  have "0 \<le> (x + 2 ^ 63) mod 2 ^ 64" and "(x + 2 ^ 63) mod 2 ^ 64 < 2 ^ 64"
    by simp_all
  then show ?thesis
    by (simp add: s64_def int64_def min_int64_def max_int64_def)
qed

lemma s64_overflow: "s64 (max_int64 + 1) = min_int64"
  by (simp add: s64_def min_int64_def max_int64_def)

section \<open>Lists and association lists\<close>

lemma length_filter_update:
  "i < length ms \<Longrightarrow> length (filter P (ms[i := m])) + (if P (ms ! i) then 1 else 0)
     = length (filter P ms) + (if P m then 1 else 0)"
proof (induction ms arbitrary: i)
  case (Cons a ms)
  then show ?case by (cases i) auto
qed simp

lemma filter_all_False: "(\<And>x. x \<in> set xs \<Longrightarrow> \<not> P x) \<Longrightarrow> filter P xs = []"
  by (simp add: filter_empty_conv)

lemma distinct_update_keys:
  "distinct (map fst m) \<Longrightarrow> distinct (map fst (AList.update k v m))"
  by (rule distinct_update)

lemma distinct_delete_keys:
  "distinct (map fst m) \<Longrightarrow> distinct (map fst (AList.delete k m))"
  by (rule distinct_delete)

lemma map_of_update [simp]: "map_of (AList.update k v m) = (map_of m)(k \<mapsto> v)"
  by (rule update_conv')

lemma map_of_delete [simp]: "map_of (AList.delete k m) = (map_of m)(k := None)"
  by (rule delete_conv')

lemma length_delete_absent:
  "map_of m k = None \<Longrightarrow> length (AList.delete k m) = length m"
  by (induction m) auto

lemma length_delete_present:
  "distinct (map fst m) \<Longrightarrow> map_of m k = Some v
    \<Longrightarrow> length m = Suc (length (AList.delete k m))"
proof (induction m)
  case (Cons kv m)
  show ?case
  proof (cases "fst kv = k")
    case True
    with Cons.prems(1) have "map_of m k = None"
      by (auto simp: map_of_eq_None_iff)
    with True show ?thesis by (cases kv) (simp add: length_delete_absent)
  next
    case False
    with Cons show ?thesis by (cases kv) auto
  qed
qed simp

end
