(* ===== verification/Go_Errors.thy ===== *)
theory Go_Errors
  imports Go_Strings
begin

text \<open>
  Error values, their messages, and the parts of \<open>errors\<close>, \<open>fmt\<close> and \<open>strconv\<close> the
  program uses to build and inspect them. A Go \<open>error\<close> result is an \<open>error option\<close>
  (\<open>None\<close> for nil), a pair \<open>(T, error)\<close> is a sum.
\<close>

section \<open>Rendering numbers and quoted strings\<close>

fun digits10 :: "nat \<Rightarrow> string" where
  "digits10 n = (if n < 10 then [char_of (48 + n)] else digits10 (n div 10) @ [char_of (48 + n mod 10)])"

declare digits10.simps [simp del]

text \<open>\<open>%d\<close>.\<close>

definition show_int :: "int \<Rightarrow> string" where
  "show_int n = (if n < 0 then CHR ''-'' # digits10 (nat (- n)) else digits10 (nat n))"

definition hex_digit :: "nat \<Rightarrow> char" where
  "hex_digit n = (if n < 10 then char_of (48 + n) else char_of (87 + n))"

text \<open>
  \<open>%q\<close> on one byte: the escapes of \<open>strconv.Quote\<close> for ASCII. Bytes from 0x80 are kept
  as they are, as \<open>Quote\<close> keeps printable runes; its escapes for unprintable non-ASCII
  runes are not modelled.
\<close>

definition quote_char :: "char \<Rightarrow> string" where
  "quote_char c =
     (if c = CHR 0x22 \<or> c = CHR 0x5C then [CHR 0x5C, c]
      else if code c = 7 then [CHR 0x5C, CHR ''a'']
      else if code c = 8 then [CHR 0x5C, CHR ''b'']
      else if code c = 12 then [CHR 0x5C, CHR ''f'']
      else if code c = 10 then [CHR 0x5C, CHR ''n'']
      else if code c = 13 then [CHR 0x5C, CHR ''r'']
      else if code c = 9 then [CHR 0x5C, CHR ''t'']
      else if code c = 11 then [CHR 0x5C, CHR ''v'']
      else if code c < 32 \<or> code c = 127
        then [CHR 0x5C, CHR ''x'', hex_digit (code c div 16), hex_digit (code c mod 16)]
      else [c])"

definition quote :: "string \<Rightarrow> string" where
  "quote s = CHR 0x22 # concat (map quote_char s) @ [CHR 0x22]"

section \<open>Error values\<close>

text \<open>
  The sentinels and error types declared in the repository, \<open>ErrNew\<close> for \<open>errors.New\<close>
  and \<open>fmt.Errorf\<close> without \<open>%w\<close>, \<open>ErrWrap\<close> for \<open>fmt.Errorf\<close> with a trailing \<open>%w\<close>,
  the two errors of a context, \<open>redis.Nil\<close>, \<open>io.EOF\<close>, and \<open>ErrExt\<close> for any other
  error a library call returns, known by its message only.
\<close>

datatype error =
    ErrQueueFull
  | ErrNotFound
  | ErrTooLarge int
  | ErrTransient error
  | ErrNew string
  | ErrWrap string error
  | CtxCanceled
  | CtxDeadline
  | RedisNil
  | IoEOF
  | ErrExt string

text \<open>\<open>Error()\<close>.\<close>

primrec error_text :: "error \<Rightarrow> string" where
  "error_text ErrQueueFull = ''queue is full''"
| "error_text ErrNotFound = ''job not found''"
| "error_text (ErrTooLarge limit) =
     ''audio exceeds MAX_AUDIO_BYTES ('' @ show_int limit @ '')''"
| "error_text (ErrTransient e) = error_text e"
| "error_text (ErrNew s) = s"
| "error_text (ErrWrap s e) = s @ error_text e"
| "error_text CtxCanceled = ''context canceled''"
| "error_text CtxDeadline = ''context deadline exceeded''"
| "error_text RedisNil = ''redis: nil''"
| "error_text IoEOF = ''EOF''"
| "error_text (ErrExt s) = s"

text \<open>\<open>Unwrap()\<close>, and \<open>errors.Is\<close> against a sentinel.\<close>

definition unwrap :: "error \<Rightarrow> error option" where
  "unwrap e = (case e of ErrTransient e' \<Rightarrow> Some e' | ErrWrap _ e' \<Rightarrow> Some e' | _ \<Rightarrow> None)"

primrec errors_is :: "error \<Rightarrow> error \<Rightarrow> bool" where
  "errors_is ErrQueueFull t \<longleftrightarrow> t = ErrQueueFull"
| "errors_is ErrNotFound t \<longleftrightarrow> t = ErrNotFound"
| "errors_is (ErrTooLarge n) t \<longleftrightarrow> t = ErrTooLarge n"
| "errors_is (ErrTransient e) t \<longleftrightarrow> t = ErrTransient e \<or> errors_is e t"
| "errors_is (ErrNew s) t \<longleftrightarrow> t = ErrNew s"
| "errors_is (ErrWrap s e) t \<longleftrightarrow> t = ErrWrap s e \<or> errors_is e t"
| "errors_is CtxCanceled t \<longleftrightarrow> t = CtxCanceled"
| "errors_is CtxDeadline t \<longleftrightarrow> t = CtxDeadline"
| "errors_is RedisNil t \<longleftrightarrow> t = RedisNil"
| "errors_is IoEOF t \<longleftrightarrow> t = IoEOF"
| "errors_is (ErrExt s) t \<longleftrightarrow> t = ErrExt s"

section \<open>strconv.ParseInt and strconv.Atoi\<close>

definition num_error :: "string \<Rightarrow> string \<Rightarrow> string \<Rightarrow> error" where
  "num_error fn s msg = ErrWrap (''strconv.'' @ fn @ '': parsing '' @ quote s @ '': '') (ErrNew msg)"

datatype scan = Digits nat | SyntaxErr | RangeErr

text \<open>The digit loop of \<open>strconv.ParseUint\<close> in base 10 with 64 bits.\<close>

fun scan_uint :: "nat \<Rightarrow> string \<Rightarrow> scan" where
  "scan_uint n [] = Digits n"
| "scan_uint n (c # cs) =
     (if \<not> is_digit c then SyntaxErr
      else if 2 ^ 64 \<le> n * 10 + (code c - 48) then RangeErr
      else scan_uint (n * 10 + (code c - 48)) cs)"

definition parse_int :: "string \<Rightarrow> string \<Rightarrow> error + int" where
  "parse_int fn s =
     (let neg = (s \<noteq> [] \<and> hd s = CHR ''-'');
          body = (if s \<noteq> [] \<and> (hd s = CHR ''-'' \<or> hd s = CHR ''+'') then tl s else s)
      in if body = [] then Inl (num_error fn s ''invalid syntax'')
         else case scan_uint 0 body of
             SyntaxErr \<Rightarrow> Inl (num_error fn s ''invalid syntax'')
           | RangeErr \<Rightarrow> Inl (num_error fn s ''value out of range'')
           | Digits n \<Rightarrow>
               if \<not> neg \<and> 2 ^ 63 \<le> n then Inl (num_error fn s ''value out of range'')
               else if neg \<and> 2 ^ 63 < n then Inl (num_error fn s ''value out of range'')
               else Inr (if neg then - int n else int n))"

abbreviation atoi :: "string \<Rightarrow> error + int" where
  "atoi s \<equiv> parse_int ''Atoi'' s"

lemma parse_int_int64: "parse_int fn s = Inr n \<Longrightarrow> int64 n"
  by (auto simp: parse_int_def Let_def int64_def min_int64_def max_int64_def
      split: if_splits scan.splits)

section \<open>Reading what was printed\<close>

lemma is_digit_char_of [simp]: "(n::nat) < 10 \<Longrightarrow> is_digit (char_of (48 + n))"
  by (simp add: is_digit_def)

lemma digits10_nonempty: "digits10 n \<noteq> []"
  by (subst digits10.simps) simp

lemma digits10_digits: "c \<in> set (digits10 n) \<Longrightarrow> is_digit c"
proof (induction n rule: digits10.induct)
  case (1 n)
  then show ?case
    by (cases "n < 10") (auto simp: digits10.simps [of n])
qed

lemma scan_uint_append:
  "scan_uint n (xs @ ys) = (case scan_uint n xs of Digits m \<Rightarrow> scan_uint m ys | r \<Rightarrow> r)"
  by (induction xs arbitrary: n) simp_all

lemma scan_uint_digits10: "n < 2 ^ 64 \<Longrightarrow> scan_uint 0 (digits10 n) = Digits n"
proof (induction n rule: digits10.induct)
  case (1 n)
  show ?case
  proof (cases "n < 10")
    case True
    then show ?thesis by (simp add: digits10.simps [of n])
  next
    case False
    have "n div 10 < 2 ^ 64" using "1.prems" by simp
    with False "1.IH" have "scan_uint 0 (digits10 (n div 10)) = Digits (n div 10)" by simp
    moreover have "n div 10 * 10 + n mod 10 = n" by simp
    ultimately show ?thesis using False "1.prems"
      by (simp add: digits10.simps [of n] scan_uint_append)
  qed
qed

lemma hd_digits10: "hd (digits10 n) \<noteq> CHR ''-''" "hd (digits10 n) \<noteq> CHR ''+''"
  using digits10_digits [OF hd_in_set [OF digits10_nonempty [of n]]]
  by (auto simp: is_digit_def)

lemma parse_int_show_int:
  assumes "int64 n"
  shows "parse_int fn (show_int n) = Inr n"
proof (cases "n < 0")
  case True
  have le: "nat (- n) \<le> 2 ^ 63"
    using assms by (simp add: int64_def min_int64_def nat_le_iff)
  then have "nat (- n) < 2 ^ 64" by simp
  then have "scan_uint 0 (digits10 (nat (- n))) = Digits (nat (- n))"
    by (rule scan_uint_digits10)
  with True le show ?thesis
    by (simp add: parse_int_def show_int_def digits10_nonempty Let_def)
next
  case False
  have lt: "nat n < 2 ^ 63"
    using assms False by (simp add: int64_def max_int64_def nat_less_iff)
  then have "nat n < 2 ^ 64" by simp
  then have "scan_uint 0 (digits10 (nat n)) = Digits (nat n)"
    by (rule scan_uint_digits10)
  with False lt show ?thesis
    using hd_digits10 [of "nat n"]
    by (simp add: parse_int_def show_int_def digits10_nonempty Let_def)
qed

end
