(* ===== verification/Audio_Store.thy ===== *)
theory Audio_Store
  imports Go_Prelude
begin

text \<open>
  \<open>internal/audio/store.go\<close>: the in-process store of uploaded audio. Claims about it
  depend on aliasing (a worker zeroes the very buffer the upload handler filled), so
  the byte buffers and the \<open>Clip\<close> structs live in an explicit heap: a slice is a buffer
  address (\<open>None\<close> for nil), a \<open>*Clip\<close> is the address of a struct, and the two \<open>next\<close>
  counters are the least addresses never allocated. Every operation of the store runs
  under its mutex, so it is one function of the whole store.
\<close>

record clip =
  Filename :: string
  Data :: "nat option"

record audio_mem =
  bufs :: "nat \<Rightarrow> string"
  next_buf :: nat
  clips :: "nat \<Rightarrow> clip"
  next_clip :: nat
  clip_map :: "(string \<times> nat) list"

section \<open>Operations\<close>

definition NewStore :: audio_mem where
  "NewStore = \<lparr>bufs = (\<lambda>_. []), next_buf = 0, clips = (\<lambda>_. \<lparr>Filename = [], Data = None\<rparr>),
     next_clip = 0, clip_map = []\<rparr>"

text \<open>Allocation of a byte slice with given contents, and of a \<open>Clip\<close>.\<close>

definition alloc_buf :: "string \<Rightarrow> audio_mem \<Rightarrow> nat \<times> audio_mem" where
  "alloc_buf bs s =
     (next_buf s, s\<lparr>bufs := (bufs s)(next_buf s := bs), next_buf := Suc (next_buf s)\<rparr>)"

definition alloc_clip :: "clip \<Rightarrow> audio_mem \<Rightarrow> nat \<times> audio_mem" where
  "alloc_clip c s =
     (next_clip s, s\<lparr>clips := (clips s)(next_clip s := c), next_clip := Suc (next_clip s)\<rparr>)"

definition Put :: "string \<Rightarrow> nat \<Rightarrow> audio_mem \<Rightarrow> audio_mem" where
  "Put jobID clip s = s\<lparr>clip_map := AList.update jobID clip (clip_map s)\<rparr>"

definition Take :: "string \<Rightarrow> audio_mem \<Rightarrow> nat option \<times> audio_mem" where
  "Take jobID s =
     (map_of (clip_map s) jobID, s\<lparr>clip_map := AList.delete jobID (clip_map s)\<rparr>)"

text \<open>The loop \<open>for i := range data { data[i] = 0 }\<close>; ranging over nil does nothing.\<close>

definition zero_slice :: "nat option \<Rightarrow> audio_mem \<Rightarrow> audio_mem" where
  "zero_slice d s =
     (case d of None \<Rightarrow> s
      | Some a \<Rightarrow> s\<lparr>bufs := (bufs s)(a := replicate (length (bufs s a)) (CHR 0x00))\<rparr>)"

definition Zero :: "nat option \<Rightarrow> audio_mem \<Rightarrow> audio_mem" where
  "Zero clip s =
     (case clip of None \<Rightarrow> s
      | Some p \<Rightarrow>
          let s' = zero_slice (Data (clips s p)) s
          in s'\<lparr>clips := (clips s')(p := (clips s' p)\<lparr>Data := None\<rparr>)\<rparr>)"

definition Drop :: "string \<Rightarrow> audio_mem \<Rightarrow> audio_mem" where
  "Drop jobID s =
     (let clip = map_of (clip_map s) jobID;
          s' = s\<lparr>clip_map := AList.delete jobID (clip_map s)\<rparr>
      in if clip \<noteq> None then Zero clip s' else s')"

definition Len :: "audio_mem \<Rightarrow> nat" where
  "Len s = length (clip_map s)"

text \<open>Reading a slice.\<close>

definition read_slice :: "nat option \<Rightarrow> audio_mem \<Rightarrow> string" where
  "read_slice d s = (case d of None \<Rightarrow> [] | Some a \<Rightarrow> bufs s a)"

lemmas audio_defs = alloc_buf_def alloc_clip_def Put_def Take_def zero_slice_def Zero_def
  Drop_def Len_def read_slice_def

section \<open>Well-formedness\<close>

text \<open>
  Keys are distinct, every stored pointer is an allocated clip, no two jobs share a clip,
  and no two clips share a buffer; every clip's slice is an allocated buffer.
\<close>

definition mem_ok :: "audio_mem \<Rightarrow> bool" where
  "mem_ok s \<longleftrightarrow> distinct (map fst (clip_map s)) \<and> distinct (map snd (clip_map s))
     \<and> (\<forall>(j, p) \<in> set (clip_map s). p < next_clip s)
     \<and> (\<forall>p a. Data (clips s p) = Some a \<longrightarrow> p < next_clip s \<and> a < next_buf s)
     \<and> (\<forall>p q a. Data (clips s p) = Some a \<longrightarrow> Data (clips s q) = Some a \<longrightarrow> p = q)"

text \<open>All bytes of a slice are zero.\<close>

definition zeroed :: "nat option \<Rightarrow> audio_mem \<Rightarrow> bool" where
  "zeroed d s \<longleftrightarrow> (\<forall>c \<in> set (read_slice d s). c = CHR 0x00)"

lemma set_delete_sub: "x \<in> set (AList.delete k m) \<Longrightarrow> x \<in> set m"
  by (induction m) (auto split: if_splits)

lemma set_update_sub: "(j, p) \<in> set (AList.update k v m) \<Longrightarrow> p = v \<or> (j, p) \<in> set m"
  by (induction m) (auto split: if_splits)

lemma distinct_snd_delete: "distinct (map snd m) \<Longrightarrow> distinct (map snd (AList.delete k m))"
  by (induction m) (auto dest: set_delete_sub)

lemma distinct_snd_update:
  "distinct (map snd m) \<Longrightarrow> v \<notin> snd ` set m \<Longrightarrow> distinct (map snd (AList.update k v m))"
proof (induction m)
  case (Cons kv m)
  then show ?case by (cases kv) (auto dest: set_update_sub)
qed simp

lemma mem_ok_NewStore: "mem_ok NewStore"
  by (simp add: mem_ok_def NewStore_def)

lemma mem_ok_alloc_buf: "mem_ok s \<Longrightarrow> mem_ok (snd (alloc_buf bs s))"
  by (auto simp: mem_ok_def alloc_buf_def less_Suc_eq)

lemma mem_ok_alloc_clip:
  assumes "mem_ok s"
    and "\<And>a. Data c = Some a \<Longrightarrow> a < next_buf s \<and> (\<forall>p. Data (clips s p) \<noteq> Some a)"
  shows "mem_ok (snd (alloc_clip c s))"
  using assms by (fastforce simp: mem_ok_def alloc_clip_def less_Suc_eq)

lemma mem_ok_Take: "mem_ok s \<Longrightarrow> mem_ok (snd (Take j s))"
  by (auto simp: mem_ok_def Take_def distinct_delete_keys distinct_snd_delete
      dest!: set_delete_sub)

lemma mem_ok_Put:
  "mem_ok s \<Longrightarrow> p < next_clip s \<Longrightarrow> p \<notin> snd ` set (clip_map s) \<Longrightarrow> mem_ok (Put j p s)"
  by (auto simp: mem_ok_def Put_def distinct_update_keys distinct_snd_update
      dest!: set_update_sub)

lemma zero_slice_simps [simp]:
  "clips (zero_slice d s) = clips s" "clip_map (zero_slice d s) = clip_map s"
  "next_buf (zero_slice d s) = next_buf s" "next_clip (zero_slice d s) = next_clip s"
  by (simp_all add: zero_slice_def split: option.splits)

lemma mem_ok_zero_slice: "mem_ok s \<Longrightarrow> mem_ok (zero_slice d s)"
  by (simp add: mem_ok_def)

lemma Zero_simps [simp]:
  "clip_map (Zero p s) = clip_map s" "next_buf (Zero p s) = next_buf s"
  "next_clip (Zero p s) = next_clip s"
  by (simp_all add: Zero_def Let_def split: option.splits)

lemma mem_ok_Zero: "mem_ok s \<Longrightarrow> mem_ok (Zero p s)"
  by (cases p) (auto simp: mem_ok_def Zero_def Let_def)

lemma clip_map_Drop [simp]: "clip_map (Drop j s) = AList.delete j (clip_map s)"
  by (simp add: Drop_def Let_def)

lemma mem_ok_Drop: "mem_ok s \<Longrightarrow> mem_ok (Drop j s)"
  using mem_ok_Take [of s j] by (simp add: Drop_def Take_def Let_def mem_ok_Zero)

section \<open>What the operations do\<close>

text \<open>The clip a job holds, and its audio.\<close>

definition clip_of :: "audio_mem \<Rightarrow> string \<Rightarrow> nat option" where
  "clip_of s j = map_of (clip_map s) j"

lemma clip_of_ops:
  "clip_of NewStore j = None"
  "clip_of (Put j p s) k = (if k = j then Some p else clip_of s k)"
  "clip_of (snd (Take j s)) k = (if k = j then None else clip_of s k)"
  "clip_of (Drop j s) k = (if k = j then None else clip_of s k)"
  "fst (Take j s) = clip_of s j"
  by (simp_all add: clip_of_def NewStore_def Put_def Take_def)

lemma clip_of_frame [simp]:
  "clip_of (zero_slice d s) k = clip_of s k" "clip_of (Zero p s) k = clip_of s k"
  "clip_of (snd (alloc_buf bs s)) k = clip_of s k"
  "clip_of (snd (alloc_clip c s)) k = clip_of s k"
  by (simp_all add: clip_of_def alloc_buf_def alloc_clip_def)

lemma zeroed_zero_slice: "zeroed d (zero_slice d s)"
  by (cases d) (simp_all add: zeroed_def zero_slice_def read_slice_def)

lemma Len_ops:
  "mem_ok s \<Longrightarrow> clip_of s j = None \<Longrightarrow> Len (Drop j s) = Len s"
  "mem_ok s \<Longrightarrow> clip_of s j = Some p \<Longrightarrow> Len s = Suc (Len (Drop j s))"
  by (simp_all add: Len_def clip_of_def length_delete_absent length_delete_present mem_ok_def)

text \<open>
  Dropping a job zeroes the audio it held and no other buffer.
\<close>

lemma Drop_zeroes: "clip_of s j = Some p \<Longrightarrow> zeroed (Data (clips s p)) (Drop j s)"
  by (cases "Data (clips s p)")
    (simp_all add: clip_of_def Drop_def Let_def Zero_def zero_slice_def zeroed_def read_slice_def)

lemma distinct_clips:
  assumes "mem_ok s" and "clip_of s j = Some p" and "clip_of s k = Some q" and "k \<noteq> j"
  shows "p \<noteq> q"
proof
  assume "p = q"
  have "(j, p) \<in> set (clip_map s)" "(k, q) \<in> set (clip_map s)"
    using assms(2,3) by (auto simp: clip_of_def dest: map_of_SomeD)
  moreover have "inj_on snd (set (clip_map s))"
    using assms(1) by (simp add: mem_ok_def distinct_map)
  ultimately have "(j, p) = (k, q)" using \<open>p = q\<close>
    by (intro inj_onD [where f = snd]) auto
  with assms(4) show False by simp
qed

lemma clips_Drop:
  assumes "mem_ok s" and "clip_of s k = Some q" and "k \<noteq> j"
  shows "clips (Drop j s) q = clips s q"
proof (cases "clip_of s j")
  case (Some p)
  with distinct_clips [OF assms(1) Some assms(2,3)] show ?thesis
    by (simp add: clip_of_def Drop_def Let_def Zero_def)
qed (simp add: clip_of_def Drop_def)

lemma Drop_frame:
  assumes "mem_ok s" and "clip_of s k = Some q" and "k \<noteq> j"
  shows "read_slice (Data (clips s q)) (Drop j s) = read_slice (Data (clips s q)) s"
proof (cases "clip_of s j")
  case (Some p)
  from distinct_clips [OF assms(1) Some assms(2,3)] Some assms(1) show ?thesis
    by (auto simp: clip_of_def Drop_def Let_def Zero_def zero_slice_def read_slice_def mem_ok_def
        split: option.splits)
qed (simp add: clip_of_def Drop_def read_slice_def split: option.splits)

section \<open>The contract of an ephemeral store\<close>

text \<open>
  What the upload handler and the worker rely on: a map from job identifiers to clips
  whose removal is final. The laws speak of the lookup only.
\<close>

locale ephemeral_store =
  fixes put :: "string \<Rightarrow> 'p \<Rightarrow> 's \<Rightarrow> 's"
    and take :: "string \<Rightarrow> 's \<Rightarrow> 'p option \<times> 's"
    and drop_clip :: "string \<Rightarrow> 's \<Rightarrow> 's"
    and look :: "'s \<Rightarrow> string \<Rightarrow> 'p option"
  assumes look_put: "look (put j p s) k = (if k = j then Some p else look s k)"
    and take_result: "fst (take j s) = look s j"
    and look_take: "look (snd (take j s)) k = (if k = j then None else look s k)"
    and look_drop: "look (drop_clip j s) k = (if k = j then None else look s k)"
begin

lemma take_after_put: "fst (take j (put j p s)) = Some p"
  by (simp add: take_result look_put)

lemma second_take_fails: "fst (take j (snd (take j s))) = None"
  by (simp add: take_result look_take)

lemma take_after_drop: "fst (take j (drop_clip j s)) = None"
  by (simp add: take_result look_drop)

lemma put_drop_restores: "look s j = None \<Longrightarrow> look (drop_clip j (put j p s)) k = look s k"
  by (simp add: look_put look_drop)

lemma other_job_unaffected:
  "k \<noteq> j \<Longrightarrow> look (put j p s) k = look s k \<and> look (snd (take j s)) k = look s k
     \<and> look (drop_clip j s) k = look s k"
  by (simp add: look_put look_take look_drop)

end

interpretation clip_store: ephemeral_store Put Take Drop clip_of
  by unfold_locales (simp_all add: clip_of_ops)

end
