(* ===== verification/Effects.thy ===== *)
theory Effects
  imports Go_Errors Audio_Store
begin

text \<open>
  The effect language. A Go function that talks to Redis, to the network, to the clock
  or to shared memory is translated once, into a tree of operations: \<open>Op o k\<close> performs
  \<open>o\<close> and continues with \<open>k\<close> on the reply. The tree is then run in two ways: alone, in
  any environment, by \<open>run\<close> (with the list of operations it performed), and
  interleaved with other goroutines, one operation at a time (theory \<open>System\<close>).

  The operations on the audio store, the in-flight counter and the whisper gate are the
  program's own and act on the \<open>world\<close>; every other operation (Redis, HTTP, the clock,
  contexts, the random source) is answered by the environment, a parameter \<open>E\<close> over a
  state \<open>ext\<close> of its own about which nothing is assumed here.
\<close>

section \<open>Operations and replies\<close>

datatype redis_cmd =
    HSET string "(string \<times> string) list"
  | EXPIRE string int
  | XADD string "(string \<times> string) list"
  | XACK string string string
  | XDEL string string

text \<open>A multipart form: the parts \<open>multipart.Writer\<close> was given, in order.\<close>

datatype part = FilePart string string string | FieldPart string string

record request =
  req_method :: string
  req_url :: string
  req_headers :: "(string \<times> string) list"
  req_form :: "part list"

text \<open>
  A response body is the list of results its successive \<open>Read\<close> calls return, each some
  bytes and an optional error; after the last, \<open>Read\<close> returns EOF.
\<close>

type_synonym reads = "(string \<times> error option) list"

record response =
  resp_status :: int
  resp_length :: int
  resp_body :: reads

record xmessage =
  x_id :: string
  x_values :: "(string \<times> string) list"

datatype op =
    OXLen string
  | OHGetAll string
  | OTx "redis_cmd list"
  | OXReadGroup string string string int int
  | OXAutoClaim string string string int string int
  | OXGroupCreate string string string
  | OPing
  | ONewRequest string string
  | OPost request int
  | OGet string int
  | OSleep int
  | OTick int
  | ONow
  | OCtxErr
  | ORand nat
  | OMemStats
  | OGate
  | OGateRelease
  | OAlloc string
  | OPut string string "nat option"
  | OTake string
  | ODrop string
  | OClips
  | OReadSlice "nat option"
  | OZeroSlice "nat option"
  | OInFlight int
  | OInFlightLoad

datatype reply =
    RUnit
  | RBool bool
  | RInt int
  | RErr "error option"
  | RIntE "error + int"
  | RHashE "error + (string \<times> string) list"
  | RStreamsE "error + (string \<times> xmessage list) list"
  | RMessagesE "error + xmessage list"
  | RSlice "nat option"
  | RBytes string
  | RBytesE "error + string"
  | RClip "(string \<times> nat option) option"
  | RRespE "error + response"

text \<open>
  Reading a reply at the type its operation returns. A reply of another type cannot
  occur; the last equation of each gives it a value so that the functions are total.
\<close>

definition bad_reply :: error where "bad_reply = ErrExt ''reply type''"

fun as_bool :: "reply \<Rightarrow> bool" where
  "as_bool (RBool b) = b" | "as_bool _ = False"
fun as_int :: "reply \<Rightarrow> int" where
  "as_int (RInt n) = n" | "as_int _ = 0"
fun as_err :: "reply \<Rightarrow> error option" where
  "as_err (RErr e) = e" | "as_err _ = Some bad_reply"
fun as_intE :: "reply \<Rightarrow> error + int" where
  "as_intE (RIntE r) = r" | "as_intE _ = Inl bad_reply"
fun as_hashE :: "reply \<Rightarrow> error + (string \<times> string) list" where
  "as_hashE (RHashE r) = r" | "as_hashE _ = Inl bad_reply"
fun as_streamsE :: "reply \<Rightarrow> error + (string \<times> xmessage list) list" where
  "as_streamsE (RStreamsE r) = r" | "as_streamsE _ = Inl bad_reply"
fun as_messagesE :: "reply \<Rightarrow> error + xmessage list" where
  "as_messagesE (RMessagesE r) = r" | "as_messagesE _ = Inl bad_reply"
fun as_slice :: "reply \<Rightarrow> nat option" where
  "as_slice (RSlice d) = d" | "as_slice _ = None"
fun as_bytes :: "reply \<Rightarrow> string" where
  "as_bytes (RBytes b) = b" | "as_bytes _ = []"
fun as_bytesE :: "reply \<Rightarrow> error + string" where
  "as_bytesE (RBytesE b) = b" | "as_bytesE _ = Inl bad_reply"
fun as_clip :: "reply \<Rightarrow> (string \<times> nat option) option" where
  "as_clip (RClip c) = c" | "as_clip _ = None"
fun as_respE :: "reply \<Rightarrow> error + response" where
  "as_respE (RRespE r) = r" | "as_respE _ = Inl bad_reply"

section \<open>Programs\<close>

datatype 'a prog = Ret 'a | Op op "reply \<Rightarrow> 'a prog"

primrec bind :: "'a prog \<Rightarrow> ('a \<Rightarrow> 'b prog) \<Rightarrow> 'b prog" where
  "bind (Ret x) f = f x"
| "bind (Op o' k) f = Op o' (\<lambda>r. bind (k r) f)"

definition exec1 :: "op \<Rightarrow> unit prog" where
  "exec1 o' = Op o' (\<lambda>_. Ret ())"

lemma bind_Ret [simp]: "bind p Ret = p"
  by (induction p) simp_all

lemma bind_assoc: "bind (bind p f) g = bind p (\<lambda>x. bind (f x) g)"
  by (induction p) simp_all

section \<open>Running a program alone\<close>

type_synonym event = "op \<times> reply"

primrec run :: "('w \<Rightarrow> op \<Rightarrow> reply \<times> 'w) \<Rightarrow> 'a prog \<Rightarrow> 'w \<Rightarrow> 'a \<times> 'w \<times> event list" where
  "run X (Ret x) w = (x, w, [])"
| "run X (Op o' k) w =
     (let (r, w1) = X w o'; (x, w2, t) = run X (k r) w1 in (x, w2, (o', r) # t))"

abbreviation result :: "'a \<times> 'w \<times> event list \<Rightarrow> 'a" where "result \<equiv> fst"
abbreviation final :: "'a \<times> 'w \<times> event list \<Rightarrow> 'w" where "final z \<equiv> fst (snd z)"
abbreviation events :: "'a \<times> 'w \<times> event list \<Rightarrow> event list" where "events z \<equiv> snd (snd z)"

definition ops :: "'a \<times> 'w \<times> event list \<Rightarrow> op list" where
  "ops z = map fst (events z)"

lemma run_bind:
  "run X (bind p f) w =
     (let (x, w1, t1) = run X p w; (y, w2, t2) = run X (f x) w1 in (y, w2, t1 @ t2))"
  by (induction p arbitrary: w) (auto simp: Let_def split: prod.splits)

lemma result_bind: "result (run X (bind p f) w)
    = result (run X (f (result (run X p w))) (final (run X p w)))"
  by (simp add: run_bind Let_def split: prod.splits)

lemma final_bind: "final (run X (bind p f) w)
    = final (run X (f (result (run X p w))) (final (run X p w)))"
  by (simp add: run_bind Let_def split: prod.splits)

lemma events_bind: "events (run X (bind p f) w)
    = events (run X p w) @ events (run X (f (result (run X p w))) (final (run X p w)))"
  by (simp add: run_bind Let_def split: prod.splits)

lemma ops_bind: "ops (run X (bind p f) w)
    = ops (run X p w) @ ops (run X (f (result (run X p w))) (final (run X p w)))"
  by (simp add: ops_def events_bind)

lemma run_Op_projections:
  "result (run X (Op o' k) w) = result (run X (k (fst (X w o'))) (snd (X w o')))"
  "final (run X (Op o' k) w) = final (run X (k (fst (X w o'))) (snd (X w o')))"
  "events (run X (Op o' k) w)
     = (o', fst (X w o')) # events (run X (k (fst (X w o'))) (snd (X w o')))"
  "ops (run X (Op o' k) w) = o' # ops (run X (k (fst (X w o'))) (snd (X w o')))"
  by (simp_all add: ops_def Let_def split: prod.splits)

lemma run_Ret_projections:
  "result (run X (Ret x) w) = x" "final (run X (Ret x) w) = w"
  "events (run X (Ret x) w) = []" "ops (run X (Ret x) w) = []"
  by (simp_all add: ops_def)

lemmas run_simps = run_Op_projections run_Ret_projections result_bind final_bind events_bind
  ops_bind exec1_def

declare run_simps [prog_simps]
declare run.simps [simp del]

section \<open>Which operations a program can perform\<close>

text \<open>\<open>only P p\<close>: on every reply to every operation, \<open>p\<close> performs operations in \<open>P\<close> only.\<close>

primrec only :: "(op \<Rightarrow> bool) \<Rightarrow> 'a prog \<Rightarrow> bool" where
  "only P (Ret x) \<longleftrightarrow> True"
| "only P (Op o' k) \<longleftrightarrow> P o' \<and> (\<forall>r. only P (k r))"

lemma only_bind: "only P p \<Longrightarrow> (\<And>x. only P (f x)) \<Longrightarrow> only P (bind p f)"
  by (induction p) auto

lemma only_exec1 [simp]: "only P (exec1 o') \<longleftrightarrow> P o'"
  by (simp add: exec1_def)

lemma only_ops: "only P p \<Longrightarrow> o' \<in> set (ops (run X p w)) \<Longrightarrow> P o'"
  by (induction p arbitrary: w) (auto simp: run_simps)

lemma only_mono: "only P p \<Longrightarrow> (\<And>o'. P o' \<Longrightarrow> Q o') \<Longrightarrow> only Q p"
  by (induction p) auto

lemma only_filter:
  assumes "only (\<lambda>o'. \<not> P o') p"
  shows "filter P (ops (run X p w)) = []"
  by (rule filter_all_False) (rule only_ops [OF assms])

text \<open>A relation between worlds that every operation of a program respects.\<close>

lemma only_preserves:
  assumes "only P p" and "\<And>w o'. P o' \<Longrightarrow> R w (snd (X w o'))"
    and "\<And>w. R w w" and "\<And>a b c. R a b \<Longrightarrow> R b c \<Longrightarrow> R a c"
  shows "R w (final (run X p w))"
  using assms(1)
proof (induction p arbitrary: w)
  case (Op o' k)
  from Op.prems have "R w (snd (X w o'))" by (simp add: assms(2))
  moreover have "R (snd (X w o')) (final (run X (k (fst (X w o'))) (snd (X w o'))))"
    using Op.prems by (intro Op.IH) auto
  ultimately show ?case by (auto simp: run_simps intro: assms(4))
qed (simp add: run_simps assms(3))

section \<open>The world\<close>

record 'e world =
  ext :: 'e
  mem :: audio_mem
  in_flight :: int
  gate :: bool

definition init_world :: "'e \<Rightarrow> 'e world" where
  "init_world e = \<lparr>ext = e, mem = NewStore, in_flight = 0, gate = False\<rparr>"

text \<open>
  One operation of a single goroutine. \<open>OGate\<close> is the select of \<open>Transcribe\<close>: it takes
  the one slot of the gate if it is free, unless the environment says that the context's
  case is taken; a goroutine that is alone and finds the slot taken can only leave by its
  context. \<open>OPut\<close> is \<open>Put(id, &Clip{...})\<close>.
\<close>

fun step_op :: "('e \<Rightarrow> op \<Rightarrow> reply \<times> 'e) \<Rightarrow> 'e world \<Rightarrow> op \<Rightarrow> reply \<times> 'e world" where
  "step_op E w OGate =
     (let (r, e) = E (ext w) OGate
      in if gate w \<or> \<not> as_bool r then (RBool False, w\<lparr>ext := e\<rparr>)
         else (RBool True, w\<lparr>ext := e, gate := True\<rparr>))"
| "step_op E w OGateRelease = (RUnit, w\<lparr>gate := False\<rparr>)"
| "step_op E w (OAlloc bs) =
     (let (a, m) = alloc_buf bs (mem w) in (RSlice (Some a), w\<lparr>mem := m\<rparr>))"
| "step_op E w (OPut jobID filename d) =
     (let (p, m) = alloc_clip \<lparr>Filename = filename, Data = d\<rparr> (mem w)
      in (RUnit, w\<lparr>mem := Put jobID p m\<rparr>))"
| "step_op E w (OTake jobID) =
     (let (c, m) = Take jobID (mem w)
      in (RClip (map_option (\<lambda>p. (Filename (clips m p), Data (clips m p))) c), w\<lparr>mem := m\<rparr>))"
| "step_op E w (ODrop jobID) = (RUnit, w\<lparr>mem := Drop jobID (mem w)\<rparr>)"
| "step_op E w OClips = (RInt (int (Len (mem w))), w)"
| "step_op E w (OReadSlice d) = (RBytes (read_slice d (mem w)), w)"
| "step_op E w (OZeroSlice d) = (RUnit, w\<lparr>mem := zero_slice d (mem w)\<rparr>)"
| "step_op E w (OInFlight d) = (RUnit, w\<lparr>in_flight := in_flight w + d\<rparr>)"
| "step_op E w OInFlightLoad = (RInt (in_flight w), w)"
| "step_op E w o' = (let (r, e) = E (ext w) o' in (r, w\<lparr>ext := e\<rparr>))"

text \<open>Operations that leave the audio heap, the counter and the gate alone.\<close>

fun external :: "op \<Rightarrow> bool" where
  "external OGate = False"
| "external OGateRelease = False"
| "external (OAlloc _) = False"
| "external (OPut _ _ _) = False"
| "external (OTake _) = False"
| "external (ODrop _) = False"
| "external OClips = False"
| "external (OReadSlice _) = False"
| "external (OZeroSlice _) = False"
| "external (OInFlight _) = False"
| "external OInFlightLoad = False"
| "external _ = True"

lemma step_op_external:
  "external o' \<Longrightarrow> step_op E w o' = (fst (E (ext w) o'), w\<lparr>ext := snd (E (ext w) o')\<rparr>)"
  by (cases o') (simp_all add: Let_def split: prod.splits)

text \<open>A program of external operations changes the environment's state only.\<close>

lemma only_external:
  "only external p \<Longrightarrow> \<exists>e. final (run (step_op E) p w) = w\<lparr>ext := e\<rparr>"
proof (rule only_preserves [where P = external and R = "\<lambda>a b. \<exists>e. b = a\<lparr>ext := e\<rparr>"])
  show "\<exists>e. snd (step_op E w o') = w\<lparr>ext := e\<rparr>" if "external o'" for w o'
    using that by (auto simp: step_op_external)
  show "\<exists>e. w = w\<lparr>ext := e\<rparr>" for w
    by (rule exI [of _ "ext w"]) simp
qed auto

lemmas world_simps = step_op.simps

declare step_op.simps [simp del]

end
