(* ===== verification/Job.thy ===== *)
theory Job
  imports Go_Errors "HOL-Library.Product_Lexorder"
begin

text \<open>
  \<open>internal/job/job.go\<close>: the job record persisted in Redis. \<open>Status\<close> and \<open>Source\<close>
  are string types in the source, and any string can come back from Redis, so they are
  strings here, with the source's constants.
\<close>

type_synonym status = string
type_synonym source = string

definition StatusQueued :: status where "StatusQueued = ''queued''"
definition StatusProcessing :: status where "StatusProcessing = ''processing''"
definition StatusCompleted :: status where "StatusCompleted = ''completed''"
definition StatusFailed :: status where "StatusFailed = ''failed''"

definition SourceUpload :: source where "SourceUpload = ''upload''"
definition SourceURL :: source where "SourceURL = ''url''"

lemmas status_defs = StatusQueued_def StatusProcessing_def StatusCompleted_def StatusFailed_def
lemmas source_defs = SourceUpload_def SourceURL_def

record job =
  job_ID :: string
  job_Status :: status
  job_Source :: source
  job_URL :: string
  job_Language :: string
  job_Result :: string
  job_Error :: string
  job_CreatedAt :: string
  job_CompletedAt :: string

text \<open>The zero value \<open>job.Job{}\<close>.\<close>

definition zero_job :: job where
  "zero_job = \<lparr>job_ID = [], job_Status = [], job_Source = [], job_URL = [], job_Language = [],
     job_Result = [], job_Error = [], job_CreatedAt = [], job_CompletedAt = []\<rparr>"

section \<open>Lifecycle\<close>

text \<open>
  The lifecycle order the documentation gives: queued, then processing, then one of the
  two terminal states. A string that is none of the four constants is \<open>Unknown\<close>, below
  all of them.
\<close>

datatype phase = Unknown | Queued | Processing | Terminal

definition phase_of :: "status \<Rightarrow> phase" where
  "phase_of s =
     (if s = StatusQueued then Queued
      else if s = StatusProcessing then Processing
      else if s = StatusCompleted \<or> s = StatusFailed then Terminal
      else Unknown)"

primrec phase_rank :: "phase \<Rightarrow> nat" where
  "phase_rank Unknown = 0"
| "phase_rank Queued = 1"
| "phase_rank Processing = 2"
| "phase_rank Terminal = 3"

lemma phase_rank_inj: "phase_rank p = phase_rank q \<Longrightarrow> p = q"
  by (cases p; cases q) simp_all

instantiation phase :: linorder
begin

definition less_eq_phase :: "phase \<Rightarrow> phase \<Rightarrow> bool" where
  "less_eq_phase p q \<longleftrightarrow> phase_rank p \<le> phase_rank q"

definition less_phase :: "phase \<Rightarrow> phase \<Rightarrow> bool" where
  "less_phase p q \<longleftrightarrow> phase_rank p < phase_rank q"

instance
  by standard (auto simp: less_eq_phase_def less_phase_def intro: phase_rank_inj)

end

lemma phase_of_simps [simp]:
  "phase_of StatusQueued = Queued" "phase_of StatusProcessing = Processing"
  "phase_of StatusCompleted = Terminal" "phase_of StatusFailed = Terminal"
  by (simp_all add: phase_of_def status_defs)

lemma phase_le_Terminal [simp]: "p \<le> Terminal"
  by (cases p) (simp_all add: less_eq_phase_def)

lemma phase_order [simp]:
  "Queued \<le> Processing" "Queued < Terminal" "Processing < Terminal" "Unknown \<le> p"
  by (simp_all add: less_eq_phase_def less_phase_def)

end
