(* ===== verification/Redis_Store.thy ===== *)
theory Redis_Store
  imports Effects Job
begin

text \<open>
  \<open>internal/redisstore/store.go\<close>: the job queue and the job states on Redis. Redis and
  the client library are not part of the repository: every command is an operation of
  the effect language, answered by the environment. A transaction pipeline is one
  operation, since its commands are sent by \<open>Exec\<close> and run atomically.
\<close>

definition streamKey :: string where "streamKey = ''transcription:queue''"
definition groupName :: string where "groupName = ''workers''"
definition fieldJobID :: string where "fieldJobID = ''jobId''"

record store =
  jobTTL :: int
  queueSize :: int

definition jobKey :: "string \<Rightarrow> string" where
  "jobKey jid = ''job:'' @ jid"

definition ensureGroup :: "error option prog" where
  "ensureGroup = Op (OXGroupCreate streamKey groupName ''0'') (\<lambda>r.
     case as_err r of
       None \<Rightarrow> Ret None
     | Some e \<Rightarrow>
         if error_text e \<noteq> ''BUSYGROUP Consumer Group name already exists''
         then Ret (Some (ErrWrap ''create consumer group: '' e))
         else Ret None)"

text \<open>\<open>redis.ParseURL\<close> is library code, the parameter \<open>parse_url\<close>.\<close>

definition New_store ::
  "(string \<Rightarrow> error option) \<Rightarrow> string \<Rightarrow> int \<Rightarrow> int \<Rightarrow> (error + store) prog" where
  "New_store parse_url redisURL ttl qsize =
     (case parse_url redisURL of
        Some e \<Rightarrow> Ret (Inl (ErrWrap ''parse REDIS_URL: '' e))
      | None \<Rightarrow>
          Op OPing (\<lambda>r.
            case as_err r of
              Some e \<Rightarrow> Ret (Inl (ErrWrap ''ping redis: '' e))
            | None \<Rightarrow>
                bind ensureGroup (\<lambda>err.
                  case err of
                    Some e \<Rightarrow> Ret (Inl e)
                  | None \<Rightarrow> Ret (Inr \<lparr>jobTTL = ttl, queueSize = qsize\<rparr>))))"

definition Ping :: "error option prog" where
  "Ping = Op OPing (\<lambda>r. Ret (as_err r))"

definition create_cmds :: "store \<Rightarrow> job \<Rightarrow> redis_cmd list" where
  "create_cmds s j =
     [HSET (jobKey (job_ID j))
        [(''status'', job_Status j), (''source'', job_Source j), (''url'', job_URL j),
         (''language'', job_Language j), (''createdAt'', job_CreatedAt j)],
      EXPIRE (jobKey (job_ID j)) (jobTTL s),
      XADD streamKey [(fieldJobID, job_ID j)]]"

definition CreateAndEnqueue :: "store \<Rightarrow> job \<Rightarrow> error option prog" where
  "CreateAndEnqueue s j = Op (OXLen streamKey) (\<lambda>r.
     case as_intE r of
       Inl e \<Rightarrow> Ret (Some (ErrWrap ''queue length: '' e))
     | Inr n \<Rightarrow>
         if n \<ge> queueSize s then Ret (Some ErrQueueFull)
         else Op (OTx (create_cmds s j)) (\<lambda>r'.
           case as_err r' of
             Some e \<Rightarrow> Ret (Some (ErrWrap ''enqueue job: '' e))
           | None \<Rightarrow> Ret None))"

text \<open>\<open>vals[f]\<close>: the zero value for a missing field.\<close>

definition hget :: "(string \<times> string) list \<Rightarrow> string \<Rightarrow> string" where
  "hget vals f = (case map_of vals f of None \<Rightarrow> [] | Some v \<Rightarrow> v)"

definition job_of_hash :: "string \<Rightarrow> (string \<times> string) list \<Rightarrow> job" where
  "job_of_hash jid vals =
     \<lparr>job_ID = jid, job_Status = hget vals ''status'', job_Source = hget vals ''source'',
      job_URL = hget vals ''url'', job_Language = hget vals ''language'',
      job_Result = hget vals ''result'', job_Error = hget vals ''error'',
      job_CreatedAt = hget vals ''createdAt'', job_CompletedAt = hget vals ''completedAt''\<rparr>"

definition Get :: "string \<Rightarrow> (error + job) prog" where
  "Get jid = Op (OHGetAll (jobKey jid)) (\<lambda>r.
     case as_hashE r of
       Inl e \<Rightarrow> Ret (Inl (ErrWrap ''get job: '' e))
     | Inr vals \<Rightarrow>
         if length vals = 0 then Ret (Inl ErrNotFound)
         else Ret (Inr (job_of_hash jid vals)))"

definition update_cmds :: "store \<Rightarrow> string \<Rightarrow> (string \<times> string) list \<Rightarrow> redis_cmd list" where
  "update_cmds s jid flds = [HSET (jobKey jid) flds, EXPIRE (jobKey jid) (jobTTL s)]"

definition update_job :: "store \<Rightarrow> string \<Rightarrow> (string \<times> string) list \<Rightarrow> error option prog" where
  "update_job s jid flds = Op (OTx (update_cmds s jid flds)) (\<lambda>r.
     case as_err r of
       Some e \<Rightarrow> Ret (Some (ErrWrap (''update job '' @ jid @ '': '') e))
     | None \<Rightarrow> Ret None)"

definition processing_fields :: "(string \<times> string) list" where
  "processing_fields = [(''status'', StatusProcessing)]"

definition completed_fields :: "string \<Rightarrow> string \<Rightarrow> (string \<times> string) list" where
  "completed_fields res at = [(''status'', StatusCompleted), (''result'', res), (''completedAt'', at)]"

definition failed_fields :: "string \<Rightarrow> string \<Rightarrow> (string \<times> string) list" where
  "failed_fields msg at = [(''status'', StatusFailed), (''error'', msg), (''completedAt'', at)]"

definition SetProcessing :: "store \<Rightarrow> string \<Rightarrow> error option prog" where
  "SetProcessing s jid = update_job s jid processing_fields"

definition SetCompleted :: "store \<Rightarrow> string \<Rightarrow> string \<Rightarrow> string \<Rightarrow> error option prog" where
  "SetCompleted s jid res completedAt = update_job s jid (completed_fields res completedAt)"

definition SetFailed :: "store \<Rightarrow> string \<Rightarrow> string \<Rightarrow> string \<Rightarrow> error option prog" where
  "SetFailed s jid errMsg completedAt = update_job s jid (failed_fields errMsg completedAt)"

section \<open>The stream\<close>

record queued_message =
  MessageID :: string
  JobID :: string

text \<open>
  \<open>id, _ := m.Values[fieldJobID].(string)\<close>: the empty string when the field is missing.
\<close>

definition toXMessages :: "xmessage list \<Rightarrow> queued_message list" where
  "toXMessages msgs =
     map (\<lambda>m. \<lparr>MessageID = x_id m, JobID = hget (x_values m) fieldJobID\<rparr>) msgs"

fun toMessages :: "(string \<times> xmessage list) list \<Rightarrow> queued_message list" where
  "toMessages [] = []"
| "toMessages (st # streams) = toXMessages (snd st) @ toMessages streams"

definition Read :: "string \<Rightarrow> int \<Rightarrow> int \<Rightarrow> (error + queued_message list) prog" where
  "Read consumer count block =
     Op (OXReadGroup groupName consumer streamKey count block) (\<lambda>r.
       case as_streamsE r of
         Inl e \<Rightarrow> if errors_is e RedisNil then Ret (Inr [])
                   else Ret (Inl (ErrWrap ''read group: '' e))
       | Inr res \<Rightarrow> Ret (Inr (toMessages res)))"

definition Claim :: "string \<Rightarrow> int \<Rightarrow> int \<Rightarrow> (error + queued_message list) prog" where
  "Claim consumer minIdle count =
     Op (OXAutoClaim streamKey groupName consumer minIdle ''0-0'' count) (\<lambda>r.
       case as_messagesE r of
         Inl e \<Rightarrow> Ret (Inl (ErrWrap ''autoclaim: '' e))
       | Inr msgs \<Rightarrow> Ret (Inr (toXMessages msgs)))"

definition ack_cmds :: "string \<Rightarrow> redis_cmd list" where
  "ack_cmds messageID = [XACK streamKey groupName messageID, XDEL streamKey messageID]"

definition Ack :: "string \<Rightarrow> error option prog" where
  "Ack messageID = Op (OTx (ack_cmds messageID)) (\<lambda>r.
     case as_err r of
       Some e \<Rightarrow> Ret (Some (ErrWrap (''ack message '' @ messageID @ '': '') e))
     | None \<Rightarrow> Ret None)"

definition QueueLen :: "(error + int) prog" where
  "QueueLen = Op (OXLen streamKey) (\<lambda>r. Ret (as_intE r))"

lemmas store_defs = CreateAndEnqueue_def Get_def update_job_def SetProcessing_def
  SetCompleted_def SetFailed_def Read_def Claim_def Ack_def QueueLen_def Ping_def

section \<open>Lemmas\<close>

lemma hget_simps [simp]:
  "hget [] f = []" "hget ((k, v) # vals) f = (if k = f then v else hget vals f)"
  by (auto simp: hget_def)

text \<open>The hash that \<open>CreateAndEnqueue\<close> writes reads back as the job it was given.\<close>

lemma job_of_created_hash:
  assumes "job_Result j = []" and "job_Error j = []" and "job_CompletedAt j = []"
  shows "job_of_hash (job_ID j)
     [(''status'', job_Status j), (''source'', job_Source j), (''url'', job_URL j),
      (''language'', job_Language j), (''createdAt'', job_CreatedAt j)] = j"
  using assms by (simp add: job_of_hash_def)

text \<open>Each store operation performs one transaction or one query and nothing else.\<close>

lemma run_store_simps:
  "ops (run X (update_job s jid flds) w) = [OTx (update_cmds s jid flds)]"
  "final (run X (update_job s jid flds) w) = snd (X w (OTx (update_cmds s jid flds)))"
  "ops (run X (Ack m) w) = [OTx (ack_cmds m)]"
  "final (run X (Ack m) w) = snd (X w (OTx (ack_cmds m)))"
  "ops (run X (Get jid) w) = [OHGetAll (jobKey jid)]"
  "final (run X (Get jid) w) = snd (X w (OHGetAll (jobKey jid)))"
  by (simp_all add: update_job_def Ack_def Get_def run_simps split: option.split sum.split)

declare run_store_simps [prog_simps]

lemma result_Get: "result (run X (Get jid) w) =
   (case as_hashE (fst (X w (OHGetAll (jobKey jid)))) of
      Inl e \<Rightarrow> Inl (ErrWrap ''get job: '' e)
    | Inr vals \<Rightarrow> if length vals = 0 then Inl ErrNotFound else Inr (job_of_hash jid vals))"
  by (simp add: Get_def run_simps split: sum.split)

lemma only_store:
  "only P (update_job s jid flds) \<longleftrightarrow> P (OTx (update_cmds s jid flds))"
  "only P (Ack m) \<longleftrightarrow> P (OTx (ack_cmds m))"
  "only P (Get jid) \<longleftrightarrow> P (OHGetAll (jobKey jid))"
  "only P (Read c n b) \<longleftrightarrow> P (OXReadGroup groupName c streamKey n b)"
  "only P (Claim c i n) \<longleftrightarrow> P (OXAutoClaim streamKey groupName c i ''0-0'' n)"
  "only P QueueLen \<longleftrightarrow> P (OXLen streamKey)"
  "only P Ping \<longleftrightarrow> P OPing"
  "P (OXLen streamKey) \<Longrightarrow> P (OTx (create_cmds s j)) \<Longrightarrow> only P (CreateAndEnqueue s j)"
  by (auto simp: store_defs split: option.split sum.split)

declare only_store [safe_ops]

end
