(* ===== verification/Whisper_Client.thy ===== *)
theory Whisper_Client
  imports Effects
begin

text \<open>
  \<open>internal/whisper/client.go\<close>: the client of the hosted Whisper service. The multipart
  body is built in a \<open>bytes.Buffer\<close>, whose writes return no error, so the four error
  returns of its construction cannot be taken; the form is the list of its parts.
\<close>

definition maxErrorBody :: nat where "maxErrorBody = 4 * 1024"

record client =
  baseURL :: string
  apiKey :: string
  http_timeout :: int

definition New_client :: "string \<Rightarrow> string \<Rightarrow> int \<Rightarrow> client" where
  "New_client url key timeout = \<lparr>baseURL = url, apiKey = key, http_timeout = timeout\<rparr>"

section \<open>Reading a body\<close>

text \<open>\<open>io.ReadAll\<close>: everything up to EOF, or the first error that is not EOF.\<close>

fun read_all :: "string \<Rightarrow> reads \<Rightarrow> error + string" where
  "read_all acc [] = Inr acc"
| "read_all acc ((bs, None) # rs) = read_all (acc @ bs) rs"
| "read_all acc ((bs, Some e) # rs) = (if e = IoEOF then Inr (acc @ bs) else Inl e)"

text \<open>The bytes a body delivers before it ends, with or without an error.\<close>

fun body_bytes :: "reads \<Rightarrow> string" where
  "body_bytes [] = []"
| "body_bytes ((bs, None) # rs) = bs @ body_bytes rs"
| "body_bytes ((bs, Some e) # rs) = bs"

lemma read_all_bytes: "read_all acc rs = Inr bs \<Longrightarrow> bs = acc @ body_bytes rs"
  by (induction acc rs rule: read_all.induct) (auto split: if_splits)

section \<open>Errors\<close>

primrec IsTransient :: "error \<Rightarrow> bool" where
  "IsTransient (ErrTransient e) \<longleftrightarrow> True"
| "IsTransient (ErrWrap s e) \<longleftrightarrow> IsTransient e"
| "IsTransient ErrQueueFull \<longleftrightarrow> False"
| "IsTransient ErrNotFound \<longleftrightarrow> False"
| "IsTransient (ErrTooLarge n) \<longleftrightarrow> False"
| "IsTransient (ErrNew s) \<longleftrightarrow> False"
| "IsTransient CtxCanceled \<longleftrightarrow> False"
| "IsTransient CtxDeadline \<longleftrightarrow> False"
| "IsTransient RedisNil \<longleftrightarrow> False"
| "IsTransient IoEOF \<longleftrightarrow> False"
| "IsTransient (ErrExt s) \<longleftrightarrow> False"

definition upstreamErr :: "int \<Rightarrow> string \<Rightarrow> error" where
  "upstreamErr status body0 =
     (let body = (if length body0 > maxErrorBody then take maxErrorBody body0 else body0)
      in ErrNew (''whisper upstream returned '' @ show_int status @ '': '' @ body))"

definition safeFilename :: "string \<Rightarrow> string" where
  "safeFilename name = (if name = [] then ''audio'' else name)"

section \<open>Transcribe\<close>

text \<open>
  The request that is sent. The boundary in the content type is chosen by the library.
\<close>

definition whisper_request :: "client \<Rightarrow> string \<Rightarrow> string \<Rightarrow> string \<Rightarrow> request" where
  "whisper_request c filename audio language =
     \<lparr>req_method = ''POST'', req_url = baseURL c @ ''/transcribe'',
      req_headers = [(''Content-Type'', ''multipart/form-data''), (''X-API-Key'', apiKey c)],
      req_form = [FilePart ''audio'' (safeFilename filename) audio,
                  FieldPart ''language'' language]\<rparr>"

text \<open>The code after the request was sent, on the response.\<close>

definition response_result :: "error + response \<Rightarrow> error + string" where
  "response_result r =
     (case r of
        Inl e \<Rightarrow> Inl (ErrTransient (ErrWrap ''whisper request: '' e))
      | Inr resp \<Rightarrow>
          (case read_all [] (resp_body resp) of
             Inl e \<Rightarrow> Inl (ErrTransient (ErrWrap ''read whisper response: '' e))
           | Inr respBody \<Rightarrow>
               if resp_status resp = 200 then Inr respBody
               else if resp_status resp \<ge> 500 then
                 Inl (ErrTransient (upstreamErr (resp_status resp) respBody))
               else Inl (upstreamErr (resp_status resp) respBody)))"

definition Transcribe ::
  "client \<Rightarrow> string \<Rightarrow> nat option \<Rightarrow> string \<Rightarrow> (error + string) prog" where
  "Transcribe c filename audio language =
     Op (OReadSlice audio) (\<lambda>bs.
     Op (ONewRequest ''POST'' (baseURL c @ ''/transcribe'')) (\<lambda>r.
       case as_err r of
         Some e \<Rightarrow> Ret (Inl (ErrWrap ''build request: '' e))
       | None \<Rightarrow>
           Op OGate (\<lambda>acquired.
             if as_bool acquired then
               Op (OPost (whisper_request c filename (as_bytes bs) language) (http_timeout c)) (\<lambda>resp.
               Op OGateRelease (\<lambda>_. Ret (response_result (as_respE resp))))
             else
               Op OCtxErr (\<lambda>e.
                 Ret (Inl (ErrTransient
                   (ErrWrap ''whisper gate wait: ''
                     (case as_err e of Some x \<Rightarrow> x | None \<Rightarrow> CtxCanceled))))))))"

section \<open>Lemmas\<close>

lemma response_result_cases:
  "response_result r = Inr body \<longleftrightarrow>
     (\<exists>resp. r = Inr resp \<and> resp_status resp = 200 \<and> read_all [] (resp_body resp) = Inr body)"
  by (auto simp: response_result_def split: sum.splits if_splits)

lemma response_result_transient:
  "response_result r = Inl e \<Longrightarrow> IsTransient e \<longleftrightarrow>
     (case r of Inl _ \<Rightarrow> True
      | Inr resp \<Rightarrow> (case read_all [] (resp_body resp) of Inl _ \<Rightarrow> True
          | Inr _ \<Rightarrow> resp_status resp \<ge> 500))"
  by (auto simp: response_result_def upstreamErr_def Let_def split: sum.splits if_splits)

text \<open>
  The operations of the client: it reads the audio, builds the request, uses the gate and
  sends, and nothing else.
\<close>

fun whisper_op :: "op \<Rightarrow> bool" where
  "whisper_op (OReadSlice _) = True"
| "whisper_op (ONewRequest _ _) = True"
| "whisper_op OGate = True"
| "whisper_op OGateRelease = True"
| "whisper_op (OPost _ _) = True"
| "whisper_op OCtxErr = True"
| "whisper_op _ = False"

lemma only_Transcribe [safe_ops]: "only whisper_op (Transcribe c filename audio language)"
  by (simp add: Transcribe_def split: option.split)

end
