(* ===== verification/Download.thy ===== *)
theory Download
  imports Whisper_Client
begin

text \<open>
  \<open>internal/worker/download.go\<close>: fetching the audio of a URL job, with a limit on the
  bytes read. \<open>http.DefaultClient\<close> is the environment; \<open>url.Parse\<close> is the parameter
  \<open>url_path\<close>, which gives the decoded path of a URL, \<open>None\<close> for a parse error.
\<close>

section \<open>io.LimitReader\<close>

text \<open>
  The reads of \<open>io.LimitReader(r, n)\<close>: it asks for at most the bytes left, returns EOF
  once none are left (at once for \<open>n \<le> 0\<close>), and passes errors on.
\<close>

fun limit_reads :: "int \<Rightarrow> reads \<Rightarrow> reads" where
  "limit_reads n [] = []"
| "limit_reads n ((bs, e) # rs) =
     (if n \<le> 0 then []
      else if int (length bs) > n then [(take (nat n) bs, None)]
      else (bs, e) # limit_reads (n - int (length bs)) rs)"

lemma limited_bytes_all:
  "int (length (body_bytes rs)) < n \<Longrightarrow> read_all acc (limit_reads n rs) = read_all acc rs"
  by (induction acc rs arbitrary: n rule: read_all.induct) auto

lemma limited_bytes_prefix:
  "n \<le> int (length (body_bytes rs)) \<Longrightarrow> 0 \<le> n
    \<Longrightarrow> read_all acc (limit_reads n rs) = Inr bs \<Longrightarrow> bs = acc @ take (nat n) (body_bytes rs)"
proof (induction acc rs arbitrary: n rule: read_all.induct)
  case (2 acc b rs)
  show ?case
  proof (cases "n \<le> 0 \<or> int (length b) > n")
    case True
    then show ?thesis
    proof
      assume "int (length b) > n"
      with 2 show ?thesis by (cases "n = 0") (simp_all add: nat_le_iff)
    qed (use 2 in simp)
  next
    case False
    then have "length b \<le> nat n" by (simp add: le_nat_iff)
    moreover have "nat n - length b = nat (n - int (length b))" using False by (simp add: nat_diff_distrib')
    ultimately show ?thesis using 2 False by simp
  qed
qed (auto simp: nat_le_iff split: if_splits)

section \<open>path.Base and the file name\<close>

definition slash :: char where "slash = CHR ''/''"

definition path_base :: "string \<Rightarrow> string" where
  "path_base p =
     (if p = [] then ''.''
      else
        let q = rev (dropWhile (\<lambda>c. c = slash) (rev p));
            base = rev (takeWhile (\<lambda>c. c \<noteq> slash) (rev q))
        in if base = [] then ''/'' else base)"

definition filenameFromURL :: "(string \<Rightarrow> string option) \<Rightarrow> string \<Rightarrow> string" where
  "filenameFromURL url_path rawURL =
     (case url_path rawURL of
        None \<Rightarrow> ''audio''
      | Some p \<Rightarrow>
          if p = [] then ''audio''
          else
            let base = path_base p
            in if base = [] \<or> base = ''.'' \<or> base = ''/'' then ''audio'' else base)"

section \<open>download\<close>

text \<open>
  \<open>maxBytes+1\<close> is 64-bit arithmetic. The result is the file name and the bytes; the
  caller's slice is allocated by \<open>io.ReadAll\<close> (theory \<open>Pool\<close>).
\<close>

definition download_result ::
  "(string \<Rightarrow> string option) \<Rightarrow> string \<Rightarrow> int \<Rightarrow> error + response \<Rightarrow> error + (string \<times> string)" where
  "download_result url_path url maxBytes r =
     (case r of
        Inl e \<Rightarrow> Inl (ErrWrap ''download: '' e)
      | Inr resp \<Rightarrow>
          if resp_status resp \<noteq> 200 then
            Inl (ErrNew (''download returned status '' @ show_int (resp_status resp)))
          else if resp_length resp > maxBytes then Inl (ErrTooLarge maxBytes)
          else
            (case read_all [] (limit_reads (s64 (maxBytes + 1)) (resp_body resp)) of
               Inl e \<Rightarrow> Inl (ErrWrap ''read download body: '' e)
             | Inr data \<Rightarrow>
                 if int (length data) > maxBytes then Inl (ErrTooLarge maxBytes)
                 else Inr (filenameFromURL url_path url, data)))"

definition download ::
  "(string \<Rightarrow> string option) \<Rightarrow> string \<Rightarrow> int \<Rightarrow> int \<Rightarrow> (error + (string \<times> nat option)) prog" where
  "download url_path url maxBytes timeout =
     Op (ONewRequest ''GET'' url) (\<lambda>r.
       case as_err r of
         Some e \<Rightarrow> Ret (Inl (ErrWrap ''build download request: '' e))
       | None \<Rightarrow>
           Op (OGet url timeout) (\<lambda>resp.
             case download_result url_path url maxBytes (as_respE resp) of
               Inl e \<Rightarrow> Ret (Inl e)
             | Inr (name, data) \<Rightarrow>
                 Op (OAlloc data) (\<lambda>d. Ret (Inr (name, as_slice d)))))"

section \<open>Lemmas\<close>

lemma download_result_bound:
  "download_result up url maxBytes r = Inr (name, data) \<Longrightarrow> int (length data) \<le> maxBytes"
  by (auto simp: download_result_def split: sum.splits if_splits)

lemma download_result_complete:
  assumes "download_result up url maxBytes (Inr resp) = Inr (name, data)"
    and "0 \<le> maxBytes" and "maxBytes < max_int64"
  shows "data = body_bytes (resp_body resp)"
proof -
  have s: "s64 (maxBytes + 1) = maxBytes + 1"
    using assms(2,3) by (intro s64_id) (simp add: int64_def min_int64_def max_int64_def)
  have r: "read_all [] (limit_reads (maxBytes + 1) (resp_body resp)) = Inr data"
    and len: "int (length data) \<le> maxBytes"
    using assms(1) by (auto simp: download_result_def s split: sum.splits if_splits)
  show ?thesis
  proof (cases "int (length (body_bytes (resp_body resp))) < maxBytes + 1")
    case True
    with r have "read_all [] (resp_body resp) = Inr data" by (simp add: limited_bytes_all)
    then show ?thesis by (auto dest: read_all_bytes)
  next
    case False
    with r assms(2) have "data = take (nat (maxBytes + 1)) (body_bytes (resp_body resp))"
      using limited_bytes_prefix [of "maxBytes + 1" "resp_body resp" "[]" data] by simp
    with False len assms(2) show ?thesis by simp
  qed
qed

lemma path_base_no_slash: "path_base p \<noteq> ''/'' \<Longrightarrow> slash \<notin> set (path_base p)"
  by (auto simp: path_base_def Let_def slash_def dest: set_takeWhileD split: if_splits)

lemma filenameFromURL_safe:
  "filenameFromURL up url \<noteq> [] \<and> slash \<notin> set (filenameFromURL up url)"
  using path_base_no_slash
  by (auto simp: filenameFromURL_def Let_def slash_def split: option.splits)

fun download_op :: "op \<Rightarrow> bool" where
  "download_op (ONewRequest _ _) = True"
| "download_op (OGet _ _) = True"
| "download_op (OAlloc _) = True"
| "download_op _ = False"

lemma only_download [safe_ops]: "only download_op (download up url maxBytes timeout)"
  by (auto simp: download_def split: option.split sum.split)

end
