(* ===== verification/Go_Time.thy ===== *)
theory Go_Time
  imports Go_Errors
begin

text \<open>
  The part of Go's \<open>time\<close> package the program uses. A \<open>time.Time\<close> is the number of
  nanoseconds since the Unix epoch, a \<open>time.Duration\<close> a number of nanoseconds, and a
  \<open>*time.Location\<close> the function from Unix seconds to the zone's offset in seconds, which
  is what the IANA database holds. \<open>t.In(loc)\<close> is the pair of the two.
\<close>

type_synonym time = int
type_synonym duration = int
type_synonym location = "int \<Rightarrow> int"
type_synonym local_time = "time \<times> location"

definition Second :: duration where "Second = 10 ^ 9"
definition Minute :: duration where "Minute = 60 * 10 ^ 9"
definition Hour :: duration where "Hour = 3600 * 10 ^ 9"

lemmas duration_defs = Second_def Minute_def Hour_def

definition In :: "time \<Rightarrow> location \<Rightarrow> local_time" where
  "In t loc = (t, loc)"

definition local_sec :: "local_time \<Rightarrow> int" where
  "local_sec lt = fst lt div 10 ^ 9 + snd lt (fst lt div 10 ^ 9)"

definition hour_of :: "local_time \<Rightarrow> int" where
  "hour_of lt = local_sec lt mod 86400 div 3600"

definition minute_of :: "local_time \<Rightarrow> int" where
  "minute_of lt = local_sec lt mod 3600 div 60"

definition second_of :: "local_time \<Rightarrow> int" where
  "second_of lt = local_sec lt mod 60"

definition nanosecond_of :: "local_time \<Rightarrow> int" where
  "nanosecond_of lt = fst lt mod 10 ^ 9"

text \<open>Nanoseconds on the local clock.\<close>

definition local_ns :: "local_time \<Rightarrow> int" where
  "local_ns lt = fst lt + snd lt (fst lt div 10 ^ 9) * 10 ^ 9"

lemma local_ns_split: "local_ns lt = local_sec lt * 10 ^ 9 + nanosecond_of lt"
  by (simp add: local_ns_def local_sec_def nanosecond_of_def algebra_simps)

lemma local_ns_div_sec: "local_ns lt div 10 ^ 9 = local_sec lt"
  by (simp add: local_ns_split nanosecond_of_def)

lemma local_ns_mod_sec: "local_ns lt mod 10 ^ 9 = nanosecond_of lt"
  by (simp add: local_ns_split nanosecond_of_def)

lemma mod_mult_div:
  assumes "0 < (b::int)" and "0 < c"
  shows "x mod (b * c) div b = x div b mod c"
proof -
  have "x mod (b * c) = b * (x div b mod c) + x mod b"
    using assms by (simp add: zmod_zmult2_eq)
  moreover have "(b * (x div b mod c) + x mod b) div b = x div b mod c"
    using assms by (simp add: div_pos_pos_trivial)
  ultimately show ?thesis by simp
qed

lemma clock_split: "(x::int) mod 86400 div 3600 * 60 + x mod 3600 div 60 = x div 60 mod 1440"
proof -
  have n: "3600 * 24 = (86400::int)" "60 * 60 = (3600::int)" "60 * 24 = (1440::int)"
    by simp_all
  have "x mod (3600 * 24) div 3600 = x div 3600 mod 24"
    by (rule mod_mult_div) simp_all
  moreover have "x div (60 * 60) = x div 60 div 60"
    by (rule zdiv_zmult2_eq) simp
  moreover have "x mod (60 * 60) div 60 = x div 60 mod 60"
    by (rule mod_mult_div) simp_all
  moreover have "x div 60 mod (60 * 24) = 60 * (x div 60 div 60 mod 24) + x div 60 mod 60"
    by (rule zmod_zmult2_eq) simp
  ultimately show ?thesis unfolding n by (simp only: mult.commute)
qed

lemma clock_minute: "hour_of lt * 60 + minute_of lt = local_ns lt div (60 * 10 ^ 9) mod 1440"
proof -
  have "local_ns lt div (60 * 10 ^ 9) = local_sec lt div 60"
    using local_ns_div_sec [of lt] by (simp add: zdiv_zmult2_eq [of 60] mult.commute)
  then show ?thesis by (simp add: hour_of_def minute_of_def clock_split)
qed

lemma clock_second: "second_of lt * 10 ^ 9 + nanosecond_of lt = local_ns lt mod (60 * 10 ^ 9)"
proof -
  have "local_ns lt mod (60 * 10 ^ 9) = 10 ^ 9 * (local_sec lt mod 60) + nanosecond_of lt"
    using local_ns_div_sec [of lt] local_ns_mod_sec [of lt]
      zmod_zmult2_eq [of 60 "local_ns lt" "10 ^ 9"]
    by (simp add: mult.commute)
  then show ?thesis by (simp add: second_of_def)
qed

section \<open>Format(time.RFC3339) in UTC\<close>

text \<open>
  The proleptic Gregorian date of a day count since 1970-01-01, by the 400-year cycle
  that starts on March 1st of the year 0.
\<close>

definition civil :: "int \<Rightarrow> int \<times> int \<times> int" where
  "civil days =
     (let z = days + 719468;
          era = z div 146097;
          doe = z mod 146097;
          yoe = (doe - doe div 1460 + doe div 36524 - doe div 146096) div 365;
          doy = doe - (365 * yoe + yoe div 4 - yoe div 100);
          mp = (5 * doy + 2) div 153;
          d = doy - (153 * mp + 2) div 5 + 1;
          m = (if mp < 10 then mp + 3 else mp - 9);
          y = yoe + era * 400 + (if m \<le> 2 then 1 else 0)
      in (y, m, d))"

definition pad :: "nat \<Rightarrow> int \<Rightarrow> string" where
  "pad width n =
     (let s = show_int \<bar>n\<bar>
      in (if n < 0 then ''-'' else []) @ replicate (width - length s) (CHR ''0'') @ s)"

definition rfc3339 :: "time \<Rightarrow> string" where
  "rfc3339 t =
     (let lt = In t (\<lambda>_. 0);
          (y, m, d) = civil (local_sec lt div 86400)
      in pad 4 y @ ''-'' @ pad 2 m @ ''-'' @ pad 2 d @ ''T'' @ pad 2 (hour_of lt) @ '':''
         @ pad 2 (minute_of lt) @ '':'' @ pad 2 (second_of lt) @ ''Z'')"

lemma rfc3339_nonempty: "rfc3339 t \<noteq> []"
  by (simp add: rfc3339_def Let_def split: prod.split)

end
