(* ===== verification/Window.thy ===== *)
theory Window
  imports Go_Time
begin

text \<open>
  \<open>internal/window/window.go\<close>: the daily processing window. \<open>time.LoadLocation\<close> reads
  the IANA database, which is data outside the repository, so it is the parameter
  \<open>load_location\<close> of \<open>Parse\<close>.
\<close>

record window =
  enabled :: bool
  startMin :: int
  endMin :: int
  loc :: location

text \<open>The zero value \<open>Window{}\<close>; a nil location is UTC.\<close>

definition zero_window :: window where
  "zero_window = \<lparr>enabled = False, startMin = 0, endMin = 0, loc = (\<lambda>_. 0)\<rparr>"

section \<open>Parsing\<close>

definition parseHHMM :: "string \<Rightarrow> error + int" where
  "parseHHMM s =
     (case cut (CHR '':'') s of
        None \<Rightarrow> Inl (ErrNew (''expected HH:MM, got '' @ quote s))
      | Some (h, m) \<Rightarrow>
          (case atoi h of
             Inl _ \<Rightarrow> Inl (ErrNew (''invalid hour in '' @ quote s))
           | Inr hour \<Rightarrow>
               if hour < 0 \<or> hour > 23 then Inl (ErrNew (''invalid hour in '' @ quote s))
               else
                 (case atoi m of
                    Inl _ \<Rightarrow> Inl (ErrNew (''invalid minute in '' @ quote s))
                  | Inr minute \<Rightarrow>
                      if minute < 0 \<or> minute > 59 then Inl (ErrNew (''invalid minute in '' @ quote s))
                      else Inr (hour * 60 + minute))))"

definition Parse ::
  "(string \<Rightarrow> error + location) \<Rightarrow> string \<Rightarrow> string \<Rightarrow> string \<Rightarrow> error + window" where
  "Parse load_location start0 end0 tz0 =
     (let start = trim_space start0; end' = trim_space end0
      in if start = [] \<and> end' = [] then Inr zero_window
         else if start = [] \<or> end' = [] then
           Inl (ErrNew (''window needs both start and end (got start='' @ quote start
             @ '' end='' @ quote end' @ '')''))
         else
           (case parseHHMM start of
              Inl e \<Rightarrow> Inl (ErrWrap ''invalid window start: '' e)
            | Inr s \<Rightarrow>
                (case parseHHMM end' of
                   Inl e \<Rightarrow> Inl (ErrWrap ''invalid window end: '' e)
                 | Inr e \<Rightarrow>
                     if s = e then
                       Inl (ErrNew (''window start and end are equal ('' @ start
                         @ ''); leave both empty to disable''))
                     else
                       let tz = (if tz0 = [] then ''UTC'' else tz0)
                       in (case load_location tz of
                             Inl err \<Rightarrow>
                               Inl (ErrWrap (''invalid window timezone '' @ quote tz @ '': '') err)
                           | Inr l \<Rightarrow>
                               Inr \<lparr>enabled = True, startMin = s, endMin = e, loc = l\<rparr>))))"

section \<open>Evaluation\<close>

definition Enabled :: "window \<Rightarrow> bool" where
  "Enabled w = enabled w"

definition minuteOfDay :: "local_time \<Rightarrow> int" where
  "minuteOfDay t = hour_of t * 60 + minute_of t"

definition IsOpen :: "window \<Rightarrow> time \<Rightarrow> bool" where
  "IsOpen w t =
     (if \<not> enabled w then True
      else
        let m = minuteOfDay (In t (loc w))
        in if startMin w < endMin w then m \<ge> startMin w \<and> m < endMin w
           else m \<ge> startMin w \<or> m < endMin w)"

definition NextOpen :: "window \<Rightarrow> time \<Rightarrow> duration" where
  "NextOpen w t =
     (if IsOpen w t then 0
      else
        let lt = In t (loc w);
            m = minuteOfDay lt;
            deltaMin = (if m < startMin w then startMin w - m else (24 * 60 - m) + startMin w);
            d = deltaMin * Minute - (second_of lt * Second + nanosecond_of lt)
        in if d < 0 then 0 else d)"

section \<open>Lemmas\<close>

definition window_ok :: "window \<Rightarrow> bool" where
  "window_ok w \<longleftrightarrow> (enabled w \<longrightarrow>
     0 \<le> startMin w \<and> startMin w < 1440 \<and> 0 \<le> endMin w \<and> endMin w < 1440
     \<and> startMin w \<noteq> endMin w)"

lemma parseHHMM_range: "parseHHMM s = Inr n \<Longrightarrow> 0 \<le> n \<and> n < 1440"
  by (auto simp: parseHHMM_def split: option.splits sum.splits if_splits)

lemma Parse_cases:
  assumes "Parse ll s e tz = Inr w"
  shows "w = zero_window \<or> (enabled w \<and> parseHHMM (trim_space s) = Inr (startMin w)
    \<and> parseHHMM (trim_space e) = Inr (endMin w) \<and> startMin w \<noteq> endMin w)"
  using assms by (auto simp: Parse_def Let_def split: sum.splits if_splits)

lemma Parse_window_ok: "Parse ll s e tz = Inr w \<Longrightarrow> window_ok w"
  by (drule Parse_cases) (auto simp: window_ok_def zero_window_def dest: parseHHMM_range)

lemma minuteOfDay_eq: "minuteOfDay lt = local_ns lt div (60 * 10 ^ 9) mod 1440"
  by (simp add: minuteOfDay_def clock_minute)

lemma minuteOfDay_range: "0 \<le> minuteOfDay lt" "minuteOfDay lt < 1440"
  by (simp_all add: minuteOfDay_eq)

text \<open>The window on the circle of 1440 minutes.\<close>

definition cyc_open :: "int \<Rightarrow> int \<Rightarrow> int \<Rightarrow> bool" where
  "cyc_open s e m \<longleftrightarrow> (m - s) mod 1440 < (e - s) mod 1440"

lemma mod_shift:
  assumes "- 1440 \<le> x" and "x < 0"
  shows "x mod 1440 = x + (1440::int)"
proof -
  have "(x + 1440) mod 1440 = x + 1440"
    using assms by (intro mod_pos_pos_trivial) auto
  then show ?thesis by simp
qed

lemma IsOpen_cyc:
  assumes "window_ok w" and "enabled w"
  shows "IsOpen w t \<longleftrightarrow> cyc_open (startMin w) (endMin w) (minuteOfDay (In t (loc w)))"
proof -
  define m where "m = minuteOfDay (In t (loc w))"
  define s where "s = startMin w"
  define e where "e = endMin w"
  have m: "0 \<le> m" "m < 1440" unfolding m_def by (rule minuteOfDay_range)+
  have se: "0 \<le> s" "s < 1440" "0 \<le> e" "e < 1440" "s \<noteq> e"
    using assms by (auto simp: window_ok_def s_def e_def)
  have ms: "(m - s) mod 1440 = (if m < s then m - s + 1440 else m - s)"
    using m se by (simp add: mod_shift)
  have es: "(e - s) mod 1440 = (if e < s then e - s + 1440 else e - s)"
    using se by (simp add: mod_shift)
  have "(if s < e then m \<ge> s \<and> m < e else m \<ge> s \<or> m < e) \<longleftrightarrow> (m - s) mod 1440 < (e - s) mod 1440"
    unfolding ms es using m se by auto
  moreover have "IsOpen w t \<longleftrightarrow> (if s < e then m \<ge> s \<and> m < e else m \<ge> s \<or> m < e)"
    using assms(2) by (simp add: IsOpen_def Let_def m_def s_def e_def)
  ultimately show ?thesis by (simp only: cyc_open_def m_def s_def e_def)
qed

text \<open>Minutes until the next start, on the circle.\<close>

lemma cyc_closed_until:
  assumes "\<not> cyc_open s e m" and "0 \<le> j" and "j < (s - m) mod 1440"
  shows "\<not> cyc_open s e (m + j)"
proof -
  define r where "r = (m - s) mod 1440"
  have r: "0 \<le> r" "r < 1440" by (simp_all add: r_def)
  have "(s - m) mod 1440 = (- r) mod 1440"
    unfolding r_def by (simp add: mod_minus_eq)
  also have "\<dots> = (if r = 0 then 0 else 1440 - r)"
    using r by (simp add: mod_shift)
  finally have d: "(s - m) mod 1440 = (if r = 0 then 0 else 1440 - r)" .
  have "(m + j - s) mod 1440 = (r + j) mod 1440"
    unfolding r_def mod_add_left_eq by (simp add: algebra_simps)
  also have "\<dots> = r + j"
    using r assms(2,3) d by (simp add: mod_pos_pos_trivial split: if_splits)
  finally show ?thesis using assms(1,2) by (simp add: cyc_open_def r_def)
qed

lemma cyc_open_start: "0 \<le> s \<Longrightarrow> s < 1440 \<Longrightarrow> 0 \<le> e \<Longrightarrow> e < 1440 \<Longrightarrow> s \<noteq> e \<Longrightarrow>
    (m - s) mod 1440 = 0 \<Longrightarrow> cyc_open s e m"
  by (cases "s < e") (auto simp: cyc_open_def mod_shift)

lemma NextOpen_closed:
  assumes "window_ok w" and "\<not> IsOpen w t"
  shows "NextOpen w t = (startMin w - minuteOfDay (In t (loc w))) mod 1440 * Minute
     - local_ns (In t (loc w)) mod Minute"
    and "0 < NextOpen w t" and "NextOpen w t \<le> 24 * Hour"
    and "0 < (startMin w - minuteOfDay (In t (loc w))) mod 1440"
proof -
  define lt where "lt = In t (loc w)"
  define m where "m = minuteOfDay lt"
  define D where "D = (startMin w - m) mod 1440"
  have en: "enabled w" using assms(2) by (cases "enabled w") (simp_all add: IsOpen_def)
  have m: "0 \<le> m" "m < 1440" unfolding m_def by (rule minuteOfDay_range)+
  have se: "0 \<le> startMin w" "startMin w < 1440" "0 \<le> endMin w" "endMin w < 1440"
      "startMin w \<noteq> endMin w"
    using assms(1) en by (auto simp: window_ok_def)
  have "\<not> cyc_open (startMin w) (endMin w) m"
    using assms IsOpen_cyc [OF assms(1) en] by (simp add: m_def lt_def)
  then have neq: "m \<noteq> startMin w" using se cyc_open_start [of "startMin w" "endMin w" m] by auto
  have D: "D = (if m < startMin w then startMin w - m else (24 * 60 - m) + startMin w)"
    using m se neq by (simp add: D_def mod_shift mod_pos_pos_trivial)
  have sec: "second_of lt * Second + nanosecond_of lt = local_ns lt mod Minute"
    using clock_second [of lt] by (simp add: duration_defs)
  have D0: "0 < D" "D < 1440" using m se neq by (auto simp: D)
  have r: "0 \<le> local_ns lt mod Minute" "local_ns lt mod Minute < Minute"
    by (simp_all add: duration_defs)
  have "Minute \<le> D * Minute" "D * Minute \<le> 24 * Hour"
    using D0 by (simp_all add: duration_defs)
  then have pos: "0 < D * Minute - local_ns lt mod Minute"
      "D * Minute - local_ns lt mod Minute \<le> 24 * Hour" using r by linarith+
  have "NextOpen w t = (let d = D * Minute - (second_of lt * Second + nanosecond_of lt)
      in if d < 0 then 0 else d)"
    unfolding NextOpen_def D m_def lt_def Let_def using assms(2) by (simp only: if_False)
  then have "NextOpen w t = D * Minute - local_ns lt mod Minute"
    unfolding sec using pos(1) by (simp add: Let_def)
  with pos D0 show "NextOpen w t = (startMin w - minuteOfDay (In t (loc w))) mod 1440 * Minute
      - local_ns (In t (loc w)) mod Minute"
    and "0 < NextOpen w t" and "NextOpen w t \<le> 24 * Hour"
    and "0 < (startMin w - minuteOfDay (In t (loc w))) mod 1440"
    by (simp_all add: D_def m_def lt_def)
qed

text \<open>
  Where the zone's offset does not change, the local clock runs with the time.
\<close>

lemma local_ns_shift:
  assumes "loc w ((t + s) div 10 ^ 9) = loc w (t div 10 ^ 9)"
  shows "local_ns (In (t + s) (loc w)) = local_ns (In t (loc w)) + s"
  using assms by (simp add: local_ns_def In_def)

lemma minute_after:
  assumes "loc w ((t + s) div 10 ^ 9) = loc w (t div 10 ^ 9)"
  shows "minuteOfDay (In (t + s) (loc w))
    = (minuteOfDay (In t (loc w)) + (local_ns (In t (loc w)) mod Minute + s) div Minute) mod 1440"
proof -
  define L where "L = local_ns (In t (loc w))"
  have "L + s = L div Minute * Minute + (L mod Minute + s)" by simp
  then have "(L + s) div Minute = L div Minute + (L mod Minute + s) div Minute"
    by (metis Minute_def add.commute div_mult_self1 mult_zero_right zero_neq_numeral
        mult_eq_0_iff power_not_zero)
  then show ?thesis
    using local_ns_shift [OF assms]
    by (simp add: minuteOfDay_eq L_def [symmetric] Minute_def mod_add_left_eq)
qed

text \<open>
  \<open>NextOpen\<close> is the least delay after which the window is open, for a zone whose offset
  does not change during the next day.
\<close>

lemma NextOpen_first_open:
  assumes "window_ok w" and "\<not> IsOpen w t"
    and const: "\<forall>u. t \<le> u \<and> u \<le> t + 24 * Hour \<longrightarrow> loc w (u div 10 ^ 9) = loc w (t div 10 ^ 9)"
  shows "IsOpen w (t + NextOpen w t) \<and> (\<forall>s. 0 \<le> s \<and> s < NextOpen w t \<longrightarrow> \<not> IsOpen w (t + s))"
proof -
  define m where "m = minuteOfDay (In t (loc w))"
  define r where "r = local_ns (In t (loc w)) mod Minute"
  define D where "D = (startMin w - m) mod 1440"
  note no = NextOpen_closed [OF assms(1,2)]
  have d: "NextOpen w t = D * Minute - r" using no(1) by (simp add: D_def m_def r_def)
  have en: "enabled w" using assms(2) by (cases "enabled w") (simp_all add: IsOpen_def)
  have cyc: "IsOpen w u \<longleftrightarrow> cyc_open (startMin w) (endMin w) (minuteOfDay (In u (loc w)))" for u
    by (rule IsOpen_cyc [OF assms(1) en])
  have min: "minuteOfDay (In (t + s) (loc w)) = (m + (r + s) div Minute) mod 1440"
    if "0 \<le> s" "s \<le> NextOpen w t" for s
  proof -
    have "loc w ((t + s) div 10 ^ 9) = loc w (t div 10 ^ 9)"
      using const [rule_format, of "t + s"] that no(3) by simp
    then show ?thesis unfolding m_def r_def by (rule minute_after)
  qed
  have M: "0 < Minute" by (simp add: Minute_def)
  have r: "0 \<le> r" using M by (simp add: r_def)
  have cyc_mod: "cyc_open a b (x mod 1440) \<longleftrightarrow> cyc_open a b x" for a b x
    by (simp add: cyc_open_def mod_diff_left_eq)
  have "IsOpen w (t + NextOpen w t)"
  proof -
    have "(r + NextOpen w t) div Minute = D" using M by (simp add: d)
    then have "IsOpen w (t + NextOpen w t) \<longleftrightarrow> cyc_open (startMin w) (endMin w) (m + D)"
      using no(2) by (simp add: cyc min cyc_mod)
    moreover have "(m + D - startMin w) mod 1440 = 0"
    proof -
      have "m + D - startMin w = (m - startMin w) + D" by simp
      then have "(m + D - startMin w) mod 1440 = (m - startMin w + (startMin w - m)) mod 1440"
        unfolding D_def by (simp only: mod_add_right_eq)
      then show ?thesis by simp
    qed
    ultimately show ?thesis
      using assms(1) en by (simp add: window_ok_def cyc_open_start)
  qed
  moreover have "\<not> IsOpen w (t + s)" if "0 \<le> s" "s < NextOpen w t" for s
  proof -
    have "r + s < D * Minute" using that d by simp
    moreover have "(r + s) div Minute * Minute \<le> r + s"
      using pos_mod_sign [OF M, of "r + s"] div_mult_mod_eq [of "r + s" Minute] by linarith
    ultimately have "(r + s) div Minute * Minute < D * Minute" by linarith
    then have "(r + s) div Minute < D" using M by (simp add: mult_less_cancel_right)
    moreover have "0 \<le> (r + s) div Minute" using M r that by (simp add: pos_imp_zdiv_nonneg_iff)
    moreover have "\<not> cyc_open (startMin w) (endMin w) m" using assms(2) by (simp add: cyc m_def)
    ultimately show ?thesis
      using cyc_closed_until [of "startMin w" "endMin w" m] that
      by (simp add: cyc min cyc_mod D_def)
  qed
  ultimately show ?thesis by blast
qed

end
