(* ===== verification/Config.thy ===== *)
theory Config
  imports Window
begin

text \<open>
  \<open>internal/config/config.go\<close>: the settings read from the environment. \<open>os.Getenv\<close> is
  the parameter \<open>getenv\<close> (an unset variable is the empty string), \<open>time.LoadLocation\<close>
  the parameter \<open>load_location\<close>.
\<close>

section \<open>time.ParseDuration\<close>

text \<open>
  The fraction of a unit goes through float64 in Go; that one product,
  \<open>uint64(float64(f) * (float64(unit) / scale))\<close> for \<open>f\<close> read from \<open>k\<close> digits, is
  the parameter \<open>frac f k unit\<close>. Everything else is exact.
\<close>

fun leading_int :: "nat \<Rightarrow> string \<Rightarrow> nat option" where
  "leading_int x [] = Some x"
| "leading_int x (c # cs) =
     (if x > 2 ^ 63 div 10 then None
      else if x * 10 + (code c - 48) > 2 ^ 63 then None
      else leading_int (x * 10 + (code c - 48)) cs)"

fun leading_fraction :: "nat \<Rightarrow> nat \<Rightarrow> bool \<Rightarrow> string \<Rightarrow> nat \<times> nat" where
  "leading_fraction x k ov [] = (x, k)"
| "leading_fraction x k ov (c # cs) =
     (if ov \<or> x > (2 ^ 63 - 1) div 10 \<or> x * 10 + (code c - 48) > 2 ^ 63
      then leading_fraction x k True cs
      else leading_fraction (x * 10 + (code c - 48)) (Suc k) False cs)"

definition unit_ns :: "string \<Rightarrow> nat option" where
  "unit_ns = map_of
     [(''ns'', 1), (''us'', 1000), ([CHR 0xC2, CHR 0xB5, CHR ''s''], 1000),
      ([CHR 0xCE, CHR 0xBC, CHR ''s''], 1000), (''ms'', 1000000), (''s'', 1000000000),
      (''m'', 60000000000), (''h'', 3600000000000)]"

definition unit_char :: "char \<Rightarrow> bool" where
  "unit_char c \<longleftrightarrow> \<not> (c = CHR ''.'' \<or> is_digit c)"

text \<open>One turn of the loop on a non-empty rest: the nanoseconds read and what is left.\<close>

definition duration_term ::
  "(nat \<Rightarrow> nat \<Rightarrow> nat \<Rightarrow> nat) \<Rightarrow> string \<Rightarrow> string \<Rightarrow> error + (nat \<times> string)" where
  "duration_term frac orig s =
     (let invalid = Inl (ErrNew (''time: invalid duration '' @ quote orig)) in
      if unit_char (hd s) then invalid
      else
        (case leading_int 0 (takeWhile is_digit s) of
           None \<Rightarrow> invalid
         | Some v \<Rightarrow>
             let s1 = dropWhile is_digit s;
                 pre = (s1 \<noteq> s);
                 dot = (s1 \<noteq> [] \<and> hd s1 = CHR ''.'');
                 s2 = (if dot then tl s1 else s1);
                 fk = (if dot then leading_fraction 0 0 False (takeWhile is_digit s2) else (0, 0));
                 s3 = (if dot then dropWhile is_digit s2 else s2);
                 post = (dot \<and> s3 \<noteq> s2)
             in if \<not> pre \<and> \<not> post then invalid
                else
                  let u = takeWhile unit_char s3; s4 = dropWhile unit_char s3
                  in if u = [] then
                       Inl (ErrNew (''time: missing unit in duration '' @ quote orig))
                     else
                       (case unit_ns u of
                          None \<Rightarrow> Inl (ErrNew (''time: unknown unit '' @ quote u
                            @ '' in duration '' @ quote orig))
                        | Some unit \<Rightarrow>
                            if v > 2 ^ 63 div unit then invalid
                            else
                              let v' = (if fst fk > 0 then v * unit + frac (fst fk) (snd fk) unit
                                        else v * unit)
                              in if fst fk > 0 \<and> v' > 2 ^ 63 then invalid
                                 else Inr (v', s4))))"

lemma duration_term_shorter:
  assumes "duration_term frac orig s = Inr (v, rest)"
  shows "length rest < length s"
proof -
  let ?s1 = "dropWhile is_digit s"
  let ?dot = "?s1 \<noteq> [] \<and> hd ?s1 = CHR ''.''"
  let ?s2 = "if ?dot then tl ?s1 else ?s1"
  let ?s3 = "if ?dot then dropWhile is_digit ?s2 else ?s2"
  have rest: "rest = dropWhile unit_char ?s3" and u: "takeWhile unit_char ?s3 \<noteq> []"
    using assms
    by (auto simp: duration_term_def Let_def simp del: takeWhile_eq_Nil_iff dropWhile_eq_Nil_conv
        split: option.splits if_splits)
  have "length ?s3 = length (takeWhile unit_char ?s3) + length rest"
    unfolding rest by (metis length_append takeWhile_dropWhile_id)
  with u have "length rest < length ?s3" by (cases "takeWhile unit_char ?s3") simp_all
  moreover have "length ?s3 \<le> length s"
    using length_dropWhile_le [of is_digit s] length_dropWhile_le [of is_digit "tl ?s1"]
    by (auto intro: le_trans)
  ultimately show ?thesis by simp
qed

function duration_loop ::
  "(nat \<Rightarrow> nat \<Rightarrow> nat \<Rightarrow> nat) \<Rightarrow> string \<Rightarrow> nat \<Rightarrow> string \<Rightarrow> error + nat" where
  "duration_loop frac orig d s =
     (if s = [] then Inr d
      else
        (case duration_term frac orig s of
           Inl e \<Rightarrow> Inl e
         | Inr (v, rest) \<Rightarrow>
             let d' = (d + v) mod 2 ^ 64
             in if d' > 2 ^ 63 then Inl (ErrNew (''time: invalid duration '' @ quote orig))
                else duration_loop frac orig d' rest))"
  by pat_completeness auto
termination
  by (relation "measure (\<lambda>(frac, orig, d, s). length s)") (auto dest: duration_term_shorter)

declare duration_loop.simps [simp del]

definition parse_duration ::
  "(nat \<Rightarrow> nat \<Rightarrow> nat \<Rightarrow> nat) \<Rightarrow> string \<Rightarrow> error + duration" where
  "parse_duration frac orig =
     (let neg = (orig \<noteq> [] \<and> hd orig = CHR ''-'');
          s = (if orig \<noteq> [] \<and> (hd orig = CHR ''-'' \<or> hd orig = CHR ''+'') then tl orig else orig)
      in if s = ''0'' then Inr 0
         else if s = [] then Inl (ErrNew (''time: invalid duration '' @ quote orig))
         else
           (case duration_loop frac orig 0 s of
              Inl e \<Rightarrow> Inl e
            | Inr d \<Rightarrow>
                if neg then Inr (- int d)
                else if d > 2 ^ 63 - 1 then
                  Inl (ErrNew (''time: invalid duration '' @ quote orig))
                else Inr (int d)))"

section \<open>The configuration\<close>

record config =
  cfg_Port :: string
  cfg_APIKey :: string
  cfg_RedisURL :: string
  cfg_WhisperUpstreamURL :: string
  cfg_WhisperAPIKey :: string
  cfg_MaxConcurrency :: int
  cfg_QueueSize :: int
  cfg_JobTTL :: duration
  cfg_MaxAudioBytes :: int
  cfg_DownloadTimeout :: duration
  cfg_UpstreamTimeout :: duration
  cfg_DefaultLanguage :: string
  cfg_WhisperWindow :: window

definition getEnv :: "(string \<Rightarrow> string) \<Rightarrow> string \<Rightarrow> string \<Rightarrow> string" where
  "getEnv getenv key fallback = (let v = getenv key in if v \<noteq> [] then v else fallback)"

definition invalid_env :: "string \<Rightarrow> string \<Rightarrow> error \<Rightarrow> error" where
  "invalid_env key v e = ErrWrap (''invalid '' @ key @ ''='' @ quote v @ '': '') e"

definition getEnvInt :: "(string \<Rightarrow> string) \<Rightarrow> string \<Rightarrow> int \<Rightarrow> error + int" where
  "getEnvInt getenv key fallback =
     (let v = getenv key
      in if v = [] then Inr fallback else map_err (invalid_env key v) (atoi v))"

definition getEnvInt64 :: "(string \<Rightarrow> string) \<Rightarrow> string \<Rightarrow> int \<Rightarrow> error + int" where
  "getEnvInt64 getenv key fallback =
     (let v = getenv key
      in if v = [] then Inr fallback
         else map_err (invalid_env key v) (parse_int ''ParseInt'' v))"

definition getEnvDuration ::
  "(nat \<Rightarrow> nat \<Rightarrow> nat \<Rightarrow> nat) \<Rightarrow> (string \<Rightarrow> string) \<Rightarrow> string \<Rightarrow> duration \<Rightarrow> error + duration" where
  "getEnvDuration frac getenv key fallback =
     (let v = getenv key
      in if v = [] then Inr fallback else map_err (invalid_env key v) (parse_duration frac v))"

definition validate :: "config \<Rightarrow> error option" where
  "validate c =
     (if cfg_APIKey c = [] then
        Some (ErrNew ''API_KEY is required (client authentication)'')
      else if cfg_WhisperAPIKey c = [] then
        Some (ErrNew ''WHISPER_API_KEY is required (upstream authentication)'')
      else if cfg_RedisURL c = [] then Some (ErrNew ''REDIS_URL is required'')
      else if cfg_WhisperUpstreamURL c = [] then
        Some (ErrNew ''WHISPER_UPSTREAM_URL is required'')
      else if cfg_MaxConcurrency c < 1 then
        Some (ErrNew (''MAX_CONCURRENCY must be >= 1, got '' @ show_int (cfg_MaxConcurrency c)))
      else if cfg_QueueSize c < 1 then
        Some (ErrNew (''QUEUE_SIZE must be >= 1, got '' @ show_int (cfg_QueueSize c)))
      else if cfg_MaxAudioBytes c < 1 then
        Some (ErrNew (''MAX_AUDIO_BYTES must be >= 1, got '' @ show_int (cfg_MaxAudioBytes c)))
      else None)"

text \<open>\<open>andThen\<close> is the \<open>if err != nil { return Config{}, err }\<close> after each reader.\<close>

definition andThen :: "error + 'a \<Rightarrow> ('a \<Rightarrow> error + 'b) \<Rightarrow> error + 'b" where
  "andThen r f = (case r of Inl e \<Rightarrow> Inl e | Inr x \<Rightarrow> f x)"

lemma andThen_simps [simp]: "andThen (Inl e) f = Inl e" "andThen (Inr x) f = f x"
  by (simp_all add: andThen_def)

lemma andThen_Inr_iff: "andThen r f = Inr y \<longleftrightarrow> (\<exists>x. r = Inr x \<and> f x = Inr y)"
  by (cases r) simp_all

definition Load ::
  "(nat \<Rightarrow> nat \<Rightarrow> nat \<Rightarrow> nat) \<Rightarrow> (string \<Rightarrow> error + location) \<Rightarrow> (string \<Rightarrow> string) \<Rightarrow> error + config"
where
  "Load frac load_location getenv =
     andThen (getEnvInt getenv ''MAX_CONCURRENCY'' 2) (\<lambda>max_concurrency.
     andThen (getEnvInt getenv ''QUEUE_SIZE'' 5000) (\<lambda>queue_size.
     andThen (getEnvInt64 getenv ''MAX_AUDIO_BYTES'' 104857600) (\<lambda>max_audio_bytes.
     andThen (getEnvDuration frac getenv ''JOB_TTL'' Hour) (\<lambda>job_ttl.
     andThen (getEnvDuration frac getenv ''DOWNLOAD_TIMEOUT'' (600 * Second)) (\<lambda>download_timeout.
     andThen (getEnvDuration frac getenv ''UPSTREAM_TIMEOUT'' (600 * Second)) (\<lambda>upstream_timeout.
     andThen (map_err (ErrWrap ''WHISPER_WINDOW config: '')
         (Parse load_location (getenv ''WHISPER_WINDOW_START'') (getenv ''WHISPER_WINDOW_END'')
           (getEnv getenv ''WHISPER_WINDOW_TZ'' ''America/Sao_Paulo''))) (\<lambda>window.
       let cfg = \<lparr>cfg_Port = getEnv getenv ''PORT'' ''8770'',
                   cfg_APIKey = getenv ''API_KEY'',
                   cfg_RedisURL = getEnv getenv ''REDIS_URL'' ''redis://localhost:6379/0'',
                   cfg_WhisperUpstreamURL =
                     getEnv getenv ''WHISPER_UPSTREAM_URL'' ''https://whisper.lai.ia.br'',
                   cfg_WhisperAPIKey = getenv ''WHISPER_API_KEY'',
                   cfg_MaxConcurrency = max_concurrency,
                   cfg_QueueSize = queue_size,
                   cfg_JobTTL = job_ttl,
                   cfg_MaxAudioBytes = max_audio_bytes,
                   cfg_DownloadTimeout = download_timeout,
                   cfg_UpstreamTimeout = upstream_timeout,
                   cfg_DefaultLanguage = getEnv getenv ''DEFAULT_LANGUAGE'' ''pt'',
                   cfg_WhisperWindow = window\<rparr>
       in case validate cfg of Some e \<Rightarrow> Inl e | None \<Rightarrow> Inr cfg)))))))"

section \<open>Lemmas\<close>

definition config_ok :: "config \<Rightarrow> bool" where
  "config_ok c \<longleftrightarrow> cfg_APIKey c \<noteq> [] \<and> cfg_WhisperAPIKey c \<noteq> [] \<and> cfg_RedisURL c \<noteq> []
     \<and> cfg_WhisperUpstreamURL c \<noteq> [] \<and> 1 \<le> cfg_MaxConcurrency c \<and> 1 \<le> cfg_QueueSize c
     \<and> 1 \<le> cfg_MaxAudioBytes c \<and> int64 (cfg_MaxConcurrency c) \<and> int64 (cfg_QueueSize c)
     \<and> int64 (cfg_MaxAudioBytes c) \<and> window_ok (cfg_WhisperWindow c)"

lemma int64_numeral_consts [simp]: "int64 2" "int64 5000" "int64 104857600"
  by (simp_all add: int64_def min_int64_def max_int64_def)

lemma getEnvInt_int64: "getEnvInt g k d = Inr n \<Longrightarrow> int64 d \<Longrightarrow> int64 n"
  by (auto simp: getEnvInt_def Let_def dest: parse_int_int64 split: if_splits)

lemma getEnvInt64_int64: "getEnvInt64 g k d = Inr n \<Longrightarrow> int64 d \<Longrightarrow> int64 n"
  by (auto simp: getEnvInt64_def Let_def dest: parse_int_int64 split: if_splits)

lemma validate_None: "validate c = None \<Longrightarrow>
    cfg_APIKey c \<noteq> [] \<and> cfg_WhisperAPIKey c \<noteq> [] \<and> cfg_RedisURL c \<noteq> []
     \<and> cfg_WhisperUpstreamURL c \<noteq> [] \<and> 1 \<le> cfg_MaxConcurrency c \<and> 1 \<le> cfg_QueueSize c
     \<and> 1 \<le> cfg_MaxAudioBytes c"
  by (auto simp: validate_def split: if_splits)

end
