(* ===== verification/Pool.thy ===== *)
theory Pool
  imports Redis_Store Download Config
begin

text \<open>
  \<open>internal/worker/pool.go\<close>: the goroutines that consume the queue. \<open>handle\<close> is the
  whole life of a message; \<open>consume_iter\<close> and \<open>claim_iter\<close> are one turn of the two
  endless loops. Logging has no effect on the state and is left out.
\<close>

definition readBlock :: duration where "readBlock = 5 * Second"
definition claimInterval :: duration where "claimInterval = 30 * Second"
definition claimMinIdle :: duration where "claimMinIdle = 2 * Minute"
definition maxRetries :: nat where "maxRetries = 2"
definition retryBaseDelay :: duration where "retryBaseDelay = Second"
definition windowPoll :: duration where "windowPoll = Minute"

lemmas pool_constants = readBlock_def claimInterval_def claimMinIdle_def maxRetries_def
  retryBaseDelay_def windowPoll_def

text \<open>The audio store, the counter and the gate are in the world.\<close>

record pool =
  pool_store :: store
  pool_whisper :: client
  concurrency :: int
  maxAudioBytes :: int
  downloadTimeout :: duration
  defaultLanguage :: string
  pool_window :: window

text \<open>\<open>worker.Config\<close>: what \<open>New\<close> is given, less the audio store and the logger.\<close>

record worker_config =
  wc_Store :: store
  wc_Whisper :: client
  wc_Concurrency :: int
  wc_MaxAudioBytes :: int
  wc_DownloadTimeout :: duration
  wc_DefaultLanguage :: string
  wc_Window :: window

definition New_pool :: "worker_config \<Rightarrow> pool" where
  "New_pool cfg =
     \<lparr>pool_store = wc_Store cfg, pool_whisper = wc_Whisper cfg, concurrency = wc_Concurrency cfg,
      maxAudioBytes = wc_MaxAudioBytes cfg, downloadTimeout = wc_DownloadTimeout cfg,
      defaultLanguage = wc_DefaultLanguage cfg, pool_window = wc_Window cfg\<rparr>"

definition InFlight :: "int prog" where
  "InFlight = Op OInFlightLoad (\<lambda>r. Ret (as_int r))"

definition nowRFC3339 :: "string prog" where
  "nowRFC3339 = Op ONow (\<lambda>r. Ret (rfc3339 (as_int r)))"

text \<open>The select on \<open>ctx.Done()\<close> and the timer is the operation \<open>OSleep\<close>: false for the former.\<close>

definition sleep :: "duration \<Rightarrow> bool prog" where
  "sleep d = Op (OSleep d) (\<lambda>r. Ret (as_bool r))"

lemma bind_sleep [simp]: "bind (sleep d) f = Op (OSleep d) (\<lambda>r. f (as_bool r))"
  by (simp add: sleep_def)

section \<open>handle\<close>

definition ack :: "queued_message \<Rightarrow> unit prog" where
  "ack m = bind (Ack (MessageID m)) (\<lambda>_. Ret ())"

definition fail :: "pool \<Rightarrow> queued_message \<Rightarrow> error \<Rightarrow> unit prog" where
  "fail p m cause =
     bind nowRFC3339 (\<lambda>now.
     bind (SetFailed (pool_store p) (JobID m) (error_text cause) now) (\<lambda>_.
     ack m))"

definition fetchAudio ::
  "(string \<Rightarrow> string option) \<Rightarrow> pool \<Rightarrow> string \<Rightarrow> job \<Rightarrow> (error + (string \<times> nat option)) prog" where
  "fetchAudio url_path p jobID j =
     (if job_Source j = SourceUpload then
        Op (OTake jobID) (\<lambda>r.
          case as_clip r of
            None \<Rightarrow> Ret (Inl (ErrNew ''uploaded audio no longer in memory (instance restarted?)''))
          | Some clip \<Rightarrow> Ret (Inr clip))
      else if job_Source j = SourceURL then
        download url_path (job_URL j) (maxAudioBytes p) (downloadTimeout p)
      else Ret (Inl (ErrNew (''unknown job source '' @ quote (job_Source j)))))"

text \<open>The loop over \<open>attempt\<close>, with the last error.\<close>

function transcribe_loop ::
  "pool \<Rightarrow> string \<Rightarrow> nat option \<Rightarrow> string \<Rightarrow> nat \<Rightarrow> error \<Rightarrow> (error + string) prog" where
  "transcribe_loop p filename data language attempt lastErr =
     (if attempt \<le> maxRetries then
        let call =
          bind (Transcribe (pool_whisper p) filename data language) (\<lambda>res.
            case res of
              Inr body \<Rightarrow> Ret (Inr body)
            | Inl err \<Rightarrow>
                if \<not> IsTransient err then Ret (Inl err)
                else transcribe_loop p filename data language (Suc attempt) err)
        in if attempt > 0 then
             bind (sleep (retryBaseDelay * 2 ^ (attempt - 1))) (\<lambda>slept.
               if \<not> slept then
                 Op OCtxErr (\<lambda>e. Ret (Inl (ErrWrap ''cancelled during retry backoff: ''
                   (case as_err e of Some x \<Rightarrow> x | None \<Rightarrow> CtxCanceled))))
               else call)
           else call
      else Ret (Inl (ErrWrap (''transcription failed after '' @ show_int (int maxRetries)
             @ '' retries: '') lastErr)))"
  by pat_completeness auto
termination
  by (relation "measure (\<lambda>(p, f, d, l, attempt, e). Suc maxRetries - attempt)") auto

declare transcribe_loop.simps [simp del]

definition transcribeWithRetry ::
  "pool \<Rightarrow> string \<Rightarrow> nat option \<Rightarrow> string \<Rightarrow> (error + string) prog" where
  "transcribeWithRetry p filename data language =
     transcribe_loop p filename data language 0 (ErrNew [])"

text \<open>
  The end of \<open>handle\<close>, after \<open>transcribeWithRetry\<close> returned; the part after the job was
  read and found not terminal; and the part under the two deferred calls.
\<close>

definition handle_result :: "pool \<Rightarrow> queued_message \<Rightarrow> nat option \<Rightarrow> error + string \<Rightarrow> unit prog" where
  "handle_result p m data res =
     Op (OZeroSlice data) (\<lambda>_.
       case res of
         Inl txErr \<Rightarrow> fail p m txErr
       | Inr body \<Rightarrow>
           bind nowRFC3339 (\<lambda>completedAt.
           bind (SetCompleted (pool_store p) (JobID m) body completedAt) (\<lambda>_.
           ack m)))"

definition handle_job ::
  "(string \<Rightarrow> string option) \<Rightarrow> pool \<Rightarrow> queued_message \<Rightarrow> job \<Rightarrow> unit prog" where
  "handle_job url_path p m j =
     bind (SetProcessing (pool_store p) (JobID m)) (\<lambda>_.
     let language = (if job_Language j = [] then defaultLanguage p else job_Language j) in
     bind (fetchAudio url_path p (JobID m) j) (\<lambda>fetched.
       case fetched of
         Inl fetchErr \<Rightarrow> fail p m (ErrWrap ''fetch audio: '' fetchErr)
       | Inr (filename, data) \<Rightarrow>
           bind (transcribeWithRetry p filename data language) (handle_result p m data)))"

definition handle_body :: "(string \<Rightarrow> string option) \<Rightarrow> pool \<Rightarrow> queued_message \<Rightarrow> unit prog" where
  "handle_body url_path p m =
     bind (Get (JobID m)) (\<lambda>r.
       case r of
         Inl _ \<Rightarrow> ack m
       | Inr j \<Rightarrow>
           if job_Status j = StatusCompleted \<or> job_Status j = StatusFailed then ack m
           else handle_job url_path p m j)"

text \<open>The two deferred calls run last in, first out.\<close>

definition handle :: "(string \<Rightarrow> string option) \<Rightarrow> pool \<Rightarrow> queued_message \<Rightarrow> unit prog" where
  "handle url_path p m =
     Op (OInFlight 1) (\<lambda>_.
     bind (handle_body url_path p m) (\<lambda>_.
     Op (ODrop (JobID m)) (\<lambda>_.
     exec1 (OInFlight (- 1)))))"

primrec handle_all :: "(string \<Rightarrow> string option) \<Rightarrow> pool \<Rightarrow> queued_message list \<Rightarrow> unit prog" where
  "handle_all url_path p [] = Ret ()"
| "handle_all url_path p (m # ms) = bind (handle url_path p m) (\<lambda>_. handle_all url_path p ms)"

section \<open>The loops\<close>

definition windowSleep :: "pool \<Rightarrow> time \<Rightarrow> duration" where
  "windowSleep p now =
     (let d = NextOpen (pool_window p) now
      in if d \<le> 0 \<or> d > windowPoll then windowPoll else d)"

text \<open>
  One turn of a loop says whether to go on, with the loop's local flag \<open>closed\<close>, or to
  return.
\<close>

datatype turn = Continue bool | Return

definition consume_iter ::
  "(string \<Rightarrow> string option) \<Rightarrow> pool \<Rightarrow> string \<Rightarrow> bool \<Rightarrow> turn prog" where
  "consume_iter url_path p consumer closed =
     Op OCtxErr (\<lambda>e.
       if as_err e \<noteq> None then Ret Return
       else Op ONow (\<lambda>now.
         if \<not> IsOpen (pool_window p) (as_int now) then
           Op ONow (\<lambda>now'.
           bind (sleep (windowSleep p (as_int now'))) (\<lambda>slept.
             if \<not> slept then Ret Return else Ret (Continue True)))
         else
           bind (Read consumer 1 readBlock) (\<lambda>res.
             case res of
               Inl err \<Rightarrow>
                 Op OCtxErr (\<lambda>e'.
                   if as_err e' \<noteq> None then Ret Return
                   else bind (sleep retryBaseDelay) (\<lambda>_. Ret (Continue False)))
             | Inr msgs \<Rightarrow> bind (handle_all url_path p msgs) (\<lambda>_. Ret (Continue False)))))"

text \<open>The select on \<open>ctx.Done()\<close> and the ticker: \<open>OTick\<close> replies false for the former.\<close>

definition claim_iter ::
  "(string \<Rightarrow> string option) \<Rightarrow> pool \<Rightarrow> string \<Rightarrow> turn prog" where
  "claim_iter url_path p consumer =
     Op (OTick claimInterval) (\<lambda>ticked.
       if \<not> as_bool ticked then Ret Return
       else Op ONow (\<lambda>now.
         if \<not> IsOpen (pool_window p) (as_int now) then Ret (Continue False)
         else
           bind (Claim consumer claimMinIdle 10) (\<lambda>res.
             case res of
               Inl err \<Rightarrow> Ret (Continue False)
             | Inr msgs \<Rightarrow> bind (handle_all url_path p msgs) (\<lambda>_. Ret (Continue False)))))"

text \<open>\<open>Run\<close> starts one goroutine per consumer and the claim loop.\<close>

datatype goroutine = Consumer string | Claimer string

definition Run :: "pool \<Rightarrow> goroutine list" where
  "Run p = map (\<lambda>i. Consumer (''worker-'' @ show_int (int i))) [0..<nat (concurrency p)]
     @ [Claimer ''claimer'']"

definition goroutine_iter ::
  "(string \<Rightarrow> string option) \<Rightarrow> pool \<Rightarrow> goroutine \<Rightarrow> bool \<Rightarrow> turn prog" where
  "goroutine_iter url_path p g closed =
     (case g of Consumer c \<Rightarrow> consume_iter url_path p c closed
      | Claimer c \<Rightarrow> claim_iter url_path p c)"

end
