(* ===== verification/Pool_Facts.thy ===== *)
theory Pool_Facts
  imports Pool
begin

text \<open>
  Facts about the worker that its properties share: which operations each routine can
  perform, what it does to the world, and where its result comes from. The executor \<open>X\<close>
  is arbitrary wherever the fact does not concern the world.
\<close>

text \<open>The language a job is transcribed in.\<close>

definition job_language :: "pool \<Rightarrow> job \<Rightarrow> string" where
  "job_language p j = (if job_Language j = [] then defaultLanguage p else job_Language j)"

section \<open>Classes of operations\<close>

fun redis_op :: "op \<Rightarrow> bool" where
  "redis_op (OXLen _) = True"
| "redis_op (OHGetAll _) = True"
| "redis_op (OTx _) = True"
| "redis_op (OXReadGroup _ _ _ _ _) = True"
| "redis_op (OXAutoClaim _ _ _ _ _ _) = True"
| "redis_op (OXGroupCreate _ _ _) = True"
| "redis_op OPing = True"
| "redis_op _ = False"

fun post_op :: "op \<Rightarrow> bool" where
  "post_op (OPost _ _) = True"
| "post_op _ = False"

fun sleep_op :: "op \<Rightarrow> bool" where
  "sleep_op (OSleep _) = True"
| "sleep_op _ = False"

fun fetch_op :: "op \<Rightarrow> bool" where
  "fetch_op (OTake _) = True"
| "fetch_op o' = download_op o'"

fun transcribe_op :: "op \<Rightarrow> bool" where
  "transcribe_op (OSleep _) = True"
| "transcribe_op o' = whisper_op o'"

lemma classes:
  "download_op o' \<Longrightarrow> fetch_op o'" "whisper_op o' \<Longrightarrow> transcribe_op o'"
  "fetch_op o' \<Longrightarrow> \<not> redis_op o'" "transcribe_op o' \<Longrightarrow> \<not> redis_op o'"
  "fetch_op o' \<Longrightarrow> \<not> post_op o'" "whisper_op o' \<Longrightarrow> \<not> sleep_op o'"
  by (cases o'; simp)+

lemma only_fetchAudio [safe_ops]: "only fetch_op (fetchAudio up p jid j)"
  unfolding fetchAudio_def
  by (auto intro: only_mono [OF only_download] classes split: option.split)

lemma only_transcribe_loop [safe_ops]: "only transcribe_op (transcribe_loop p f d l attempt e)"
proof (induction p f d l attempt e rule: transcribe_loop.induct)
  case (1 p f d l attempt e)
  have t: "only transcribe_op (Transcribe (pool_whisper p) f d l)"
    by (rule only_mono [OF only_Transcribe]) (rule classes)
  have call: "only transcribe_op (bind (Transcribe (pool_whisper p) f d l) (\<lambda>res.
      case res of Inr body \<Rightarrow> Ret (Inr body)
      | Inl err \<Rightarrow> if \<not> IsTransient err then Ret (Inl err)
          else transcribe_loop p f d l (Suc attempt) err))" if "attempt \<le> maxRetries"
    using that by (auto intro!: only_bind t intro: "1.IH" split: sum.split)
  then show ?case
    by (subst transcribe_loop.simps) (simp add: Let_def)
qed

lemma only_transcribeWithRetry [safe_ops]:
  "only transcribe_op (transcribeWithRetry p f d l)"
  by (simp add: transcribeWithRetry_def only_transcribe_loop)

lemma no_redis:
  "filter redis_op (ops (run X (fetchAudio up p jid j) w)) = []"
  "filter redis_op (ops (run X (transcribeWithRetry p f d l) w)) = []"
  by (rule only_filter, rule only_mono [OF only_fetchAudio], simp add: classes)
    (rule only_filter, rule only_mono [OF only_transcribeWithRetry], simp add: classes)

section \<open>The Redis operations of handle\<close>

text \<open>
  How a message ends: dropped (its state is gone or already terminal), failed with a
  message, or completed with a body; and the commands each outcome sends, in order.
\<close>

datatype outcome = Dropped | Failed string string | Completed string string

primrec outcome_fields :: "outcome \<Rightarrow> (string \<times> string) list option" where
  "outcome_fields Dropped = None"
| "outcome_fields (Failed msg at) = Some (failed_fields msg at)"
| "outcome_fields (Completed body at) = Some (completed_fields body at)"

definition outcome_ops :: "pool \<Rightarrow> queued_message \<Rightarrow> outcome \<Rightarrow> op list" where
  "outcome_ops p m oc =
     OHGetAll (jobKey (JobID m)) #
     (case outcome_fields oc of
        None \<Rightarrow> []
      | Some fs \<Rightarrow> [OTx (update_cmds (pool_store p) (JobID m) processing_fields),
                    OTx (update_cmds (pool_store p) (JobID m) fs)])
     @ [OTx (ack_cmds (MessageID m))]"

text \<open>Storing the outcome, then the ack.\<close>

definition settles :: "('w \<Rightarrow> op \<Rightarrow> reply \<times> 'w) \<Rightarrow> pool \<Rightarrow> queued_message \<Rightarrow> unit prog \<Rightarrow> bool" where
  "settles X p m q \<longleftrightarrow> (\<forall>w. \<exists>oc fs. outcome_fields oc = Some fs \<and>
     filter redis_op (ops (run X q w)) =
       [OTx (update_cmds (pool_store p) (JobID m) fs), OTx (ack_cmds (MessageID m))])"

lemma ops_ack: "ops (run X (ack m) w) = [OTx (ack_cmds (MessageID m))]"
  by (simp add: ack_def prog_simps)

lemma ops_nowRFC3339: "ops (run X nowRFC3339 w) = [ONow]"
  by (simp add: nowRFC3339_def prog_simps)

lemma settlesI:
  assumes "\<And>w. \<exists>at. filter redis_op (ops (run X q w)) =
      [OTx (update_cmds (pool_store p) (JobID m) (c at)), OTx (ack_cmds (MessageID m))]"
    and "\<And>at. \<exists>oc. outcome_fields oc = Some (c at)"
  shows "settles X p m q"
  unfolding settles_def using assms by metis

lemma settles_fail: "settles X p m (fail p m e)"
proof (rule settlesI [where c = "failed_fields (error_text e)"])
  show "\<exists>oc. outcome_fields oc = Some (failed_fields (error_text e) at)" for at
    by (intro exI [of _ "Failed (error_text e) at"]) simp
  show "\<exists>at. filter redis_op (ops (run X (fail p m e) w)) =
      [OTx (update_cmds (pool_store p) (JobID m) (failed_fields (error_text e) at)),
       OTx (ack_cmds (MessageID m))]" for w
    by (intro exI [of _ "result (run X nowRFC3339 w)"])
      (simp add: fail_def run_simps ops_ack ops_nowRFC3339 SetFailed_def run_store_simps)
qed

lemma settles_completed:
  "settles X p m (bind nowRFC3339 (\<lambda>at. bind (SetCompleted (pool_store p) (JobID m) body at)
     (\<lambda>_. ack m)))"
  (is "settles X p m ?q")
proof (rule settlesI [where c = "completed_fields body"])
  show "\<exists>oc. outcome_fields oc = Some (completed_fields body at)" for at
    by (intro exI [of _ "Completed body at"]) simp
  show "\<exists>at. filter redis_op (ops (run X ?q w)) =
      [OTx (update_cmds (pool_store p) (JobID m) (completed_fields body at)),
       OTx (ack_cmds (MessageID m))]" for w
    by (intro exI [of _ "result (run X nowRFC3339 w)"])
      (simp add: run_simps ops_ack ops_nowRFC3339 SetCompleted_def run_store_simps)
qed

lemma settles_prefix:
  assumes "\<And>w. filter redis_op (ops (run X q w)) = []" and "\<And>x. settles X p m (f x)"
  shows "settles X p m (bind q f)"
  using assms by (simp add: settles_def run_simps)

lemma settles_result: "settles X p m (handle_result p m d res)"
proof -
  have "settles X p m (bind (exec1 (OZeroSlice d)) (\<lambda>_.
      case res of Inl e \<Rightarrow> fail p m e
      | Inr body \<Rightarrow> bind nowRFC3339 (\<lambda>at.
          bind (SetCompleted (pool_store p) (JobID m) body at) (\<lambda>_. ack m))))"
    by (rule settles_prefix)
      (auto simp: run_simps settles_fail settles_completed split: sum.split)
  then show ?thesis by (simp add: handle_result_def exec1_def)
qed

lemma handle_job_redis:
  "\<exists>oc fs. outcome_fields oc = Some fs \<and> filter redis_op (ops (run X (handle_job up p m j) w)) =
     [OTx (update_cmds (pool_store p) (JobID m) processing_fields),
      OTx (update_cmds (pool_store p) (JobID m) fs), OTx (ack_cmds (MessageID m))]"
proof -
  let ?l = "if job_Language j = [] then defaultLanguage p else job_Language j"
  have "settles X p m (bind (fetchAudio up p (JobID m) j) (\<lambda>fetched.
       case fetched of Inl e \<Rightarrow> fail p m (ErrWrap ''fetch audio: '' e)
       | Inr (fn, d) \<Rightarrow> bind (transcribeWithRetry p fn d ?l) (handle_result p m d)))"
    by (rule settles_prefix)
      (auto simp: no_redis settles_fail intro!: settles_prefix settles_result
        split: sum.split prod.split)
  then show ?thesis
    unfolding settles_def
    by (simp add: handle_job_def SetProcessing_def run_simps run_store_simps Let_def)
qed

text \<open>The messages that are dropped: no state, or a terminal one.\<close>

definition drops :: "error + job \<Rightarrow> bool" where
  "drops r \<longleftrightarrow> (case r of Inl _ \<Rightarrow> True | Inr j \<Rightarrow> phase_of (job_Status j) = Terminal)"

lemma phase_Terminal_iff:
  "phase_of s = Terminal \<longleftrightarrow> s = StatusCompleted \<or> s = StatusFailed"
  by (auto simp: phase_of_def status_defs)

lemma handle_body_redis:
  "\<exists>oc. filter redis_op (ops (run X (handle_body up p m) w)) = outcome_ops p m oc
     \<and> (oc = Dropped \<longleftrightarrow> drops (result (run X (Get (JobID m)) w)))"
proof (cases "drops (result (run X (Get (JobID m)) w))")
  case True
  then show ?thesis
    by (intro exI [of _ Dropped])
      (auto simp: drops_def phase_Terminal_iff handle_body_def run_simps run_store_simps ops_ack
        outcome_ops_def split: sum.splits)
next
  case False
  then obtain j where j: "result (run X (Get (JobID m)) w) = Inr j"
      "\<not> (job_Status j = StatusCompleted \<or> job_Status j = StatusFailed)"
    by (auto simp: drops_def phase_Terminal_iff split: sum.splits)
  from handle_job_redis [of X up p m j "final (run X (Get (JobID m)) w)"]
  obtain oc fs where "outcome_fields oc = Some fs"
    "filter redis_op (ops (run X (handle_job up p m j)
       (final (run X (Get (JobID m)) w)))) =
     [OTx (update_cmds (pool_store p) (JobID m) processing_fields),
      OTx (update_cmds (pool_store p) (JobID m) fs), OTx (ack_cmds (MessageID m))]"
    by blast
  with False j show ?thesis
    by (intro exI [of _ oc])
      (auto simp: handle_body_def run_simps run_store_simps outcome_ops_def)
qed

lemma handle_redis:
  "\<exists>oc. filter redis_op (ops (run X (handle up p m) w)) = outcome_ops p m oc
     \<and> (oc = Dropped \<longleftrightarrow> drops (result (run X (Get (JobID m)) (snd (X w (OInFlight 1))))))"
  using handle_body_redis [of X up p m "snd (X w (OInFlight 1))"]
  by (simp add: handle_def run_simps)

section \<open>The world after each routine\<close>

text \<open>The in-flight counter and the gate are as before.\<close>

definition same_counters :: "'e world \<Rightarrow> 'e world \<Rightarrow> bool" where
  "same_counters w w' \<longleftrightarrow> in_flight w' = in_flight w \<and> gate w' = gate w"

fun counter_op :: "op \<Rightarrow> bool" where
  "counter_op OGate = True"
| "counter_op OGateRelease = True"
| "counter_op (OInFlight _) = True"
| "counter_op _ = False"

lemma step_same_counters: "\<not> counter_op o' \<Longrightarrow> same_counters w (snd (step_op E w o'))"
  by (cases o') (simp_all add: same_counters_def world_simps Let_def split: prod.splits)

lemma only_same_counters:
  "only (\<lambda>o'. \<not> counter_op o') q \<Longrightarrow> same_counters w (final (run (step_op E) q w))"
  by (rule only_preserves [where P = "\<lambda>o'. \<not> counter_op o'" and R = same_counters])
    (auto simp: step_same_counters, auto simp: same_counters_def)

lemma same_counters_trans:
  "same_counters a b \<Longrightarrow> same_counters b c \<Longrightarrow> same_counters a c"
  by (simp add: same_counters_def)

lemma same_counters_refl [simp]: "same_counters w w"
  by (simp add: same_counters_def)

lemma same_counters_bind:
  assumes "\<And>w. same_counters w (final (run (step_op E) q w))"
    and "\<And>x w. same_counters w (final (run (step_op E) (f x) w))"
  shows "same_counters w (final (run (step_op E) (bind q f) w))"
  using assms same_counters_trans by (simp add: run_simps) blast

lemma same_counters_Op:
  assumes "\<not> counter_op o'" and "\<And>r w. same_counters w (final (run (step_op E) (k r) w))"
  shows "same_counters w (final (run (step_op E) (Op o' k) w))"
  using same_counters_trans [OF step_same_counters [OF assms(1)] assms(2)]
  by (simp add: run_simps)

lemma same_counters_Ret [simp]: "same_counters w (final (run (step_op E) (Ret x) w))"
  by (simp add: run_simps)

lemma same_counters_Transcribe:
  "same_counters w (final (run (step_op E) (Transcribe c f d l) w))"
  by (auto simp: Transcribe_def run_simps same_counters_def world_simps Let_def
      split: option.split prod.splits if_splits)

lemma same_counters_loop:
  "same_counters w (final (run (step_op E) (transcribe_loop p f d l attempt e) w))"
proof (induction p f d l attempt e arbitrary: w rule: transcribe_loop.induct)
  case (1 p f d l attempt e)
  have call: "same_counters w (final (run (step_op E)
      (bind (Transcribe (pool_whisper p) f d l) (\<lambda>res.
        case res of Inr body \<Rightarrow> Ret (Inr body)
        | Inl err \<Rightarrow> if \<not> IsTransient err then Ret (Inl err)
            else transcribe_loop p f d l (Suc attempt) err)) w))" if "attempt \<le> maxRetries" for w
    by (rule same_counters_bind [OF same_counters_Transcribe])
      (auto simp: run_simps that "1.IH" split: sum.split)
  then show ?case
    by (subst transcribe_loop.simps)
      (auto simp: Let_def intro!: same_counters_Op call)
qed

lemma same_counters_other [simp]:
  "same_counters w (final (run (step_op E) (Get jid) w))"
  "same_counters w (final (run (step_op E) (update_job s jid fs) w))"
  "same_counters w (final (run (step_op E) (ack m) w))"
  "same_counters w (final (run (step_op E) nowRFC3339 w))"
  "same_counters w (final (run (step_op E) (fetchAudio up p jid j) w))"
  "same_counters w (final (run (step_op E) (transcribeWithRetry p f d l) w))"
proof -
  have "only (\<lambda>o'. \<not> counter_op o') (fetchAudio up p jid j)"
    by (rule only_mono [OF only_fetchAudio]) (erule fetch_op.elims, auto elim: download_op.elims)
  then show "same_counters w (final (run (step_op E) (fetchAudio up p jid j) w))"
    by (rule only_same_counters)
qed (auto simp: run_simps run_store_simps ack_def nowRFC3339_def transcribeWithRetry_def
    same_counters_loop step_same_counters)

lemma same_counters_fail [simp]: "same_counters w (final (run (step_op E) (fail p m e) w))"
  unfolding fail_def SetFailed_def by (intro same_counters_bind) simp_all

lemma same_counters_result [simp]:
  "same_counters w (final (run (step_op E) (handle_result p m d res) w))"
  unfolding handle_result_def SetCompleted_def
  by (auto intro!: same_counters_Op same_counters_bind split: sum.split)

lemma same_counters_body [simp]:
  "same_counters w (final (run (step_op E) (handle_body up p m) w))"
  unfolding handle_body_def handle_job_def SetProcessing_def Let_def
  by (intro same_counters_bind)
    (auto split: sum.split prod.split intro!: same_counters_bind)

lemma same_counters_handle:
  "same_counters w (final (run (step_op E) (handle up p m) w))"
  using same_counters_body [of "w\<lparr>in_flight := in_flight w + 1\<rparr>" E up p m]
  by (simp add: handle_def run_simps world_simps same_counters_def)

section \<open>Audio\<close>

text \<open>The slice a job holds in the store.\<close>

definition held_audio :: "audio_mem \<Rightarrow> string \<Rightarrow> nat option" where
  "held_audio s j = (case clip_of s j of None \<Rightarrow> None | Some q \<Rightarrow> Data (clips s q))"

text \<open>
  \<open>releases j d n s\<close>: the slice \<open>d\<close> is zeroed or still held by \<open>j\<close>, and every buffer
  allocated from address \<open>n\<close> on is zeroed.
\<close>

definition releases :: "string \<Rightarrow> nat option \<Rightarrow> nat \<Rightarrow> audio_mem \<Rightarrow> bool" where
  "releases j d n s \<longleftrightarrow> (zeroed d s \<or> held_audio s j = d) \<and> n \<le> next_buf s
     \<and> (\<forall>a. n \<le> a \<and> a < next_buf s \<longrightarrow> zeroed (Some a) s)"

lemma zeroed_None [simp]: "zeroed None s"
  by (simp add: zeroed_def read_slice_def)

fun audio_op :: "op \<Rightarrow> bool" where
  "audio_op (OAlloc _) = True"
| "audio_op (OPut _ _ _) = True"
| "audio_op (OTake _) = True"
| "audio_op (ODrop _) = True"
| "audio_op (OZeroSlice _) = True"
| "audio_op _ = False"

lemma step_same_mem: "\<not> audio_op o' \<Longrightarrow> mem (snd (step_op E w o')) = mem w"
  by (cases o') (simp_all add: world_simps Let_def split: prod.splits)

lemma only_same_mem:
  "only (\<lambda>o'. \<not> audio_op o') q \<Longrightarrow> mem (final (run (step_op E) q w)) = mem w"
  by (rule only_preserves [where P = "\<lambda>o'. \<not> audio_op o'" and R = "\<lambda>w w'. mem w' = mem w"])
    (auto simp: step_same_mem)

lemma mem_transcribe [simp]:
  "mem (final (run (step_op E) (transcribeWithRetry p f d l) w)) = mem w"
proof (rule only_same_mem, rule only_mono [OF only_transcribeWithRetry])
  show "transcribe_op o' \<Longrightarrow> \<not> audio_op o'" for o' by (cases o') simp_all
qed

lemma mem_other [simp]:
  "mem (final (run (step_op E) (Get jid) w)) = mem w"
  "mem (final (run (step_op E) (update_job s jid fs) w)) = mem w"
  "mem (final (run (step_op E) (ack m) w)) = mem w"
  "mem (final (run (step_op E) nowRFC3339 w)) = mem w"
  "mem (final (run (step_op E) (fail p m e) w)) = mem w"
  by (simp_all add: run_simps run_store_simps ack_def nowRFC3339_def fail_def SetFailed_def
      step_same_mem)

lemma mem_result [simp]:
  "mem (final (run (step_op E) (handle_result p m d res) w)) = zero_slice d (mem w)"
  by (cases res) (simp_all add: handle_result_def SetCompleted_def run_simps world_simps)

text \<open>What \<open>fetchAudio\<close> does to the store, by its result.\<close>

lemma fetchAudio_mem:
  defines "z \<equiv> \<lambda>E up p jid j w. run (step_op E) (fetchAudio up p jid j) w"
  shows "case result (z E up p jid j w) of
      Inl e \<Rightarrow> (mem (final (z E up p jid j w)) = mem w \<or>
         clip_of (mem w) jid = None \<and> mem (final (z E up p jid j w)) = snd (Take jid (mem w)))
    | Inr (fn, d) \<Rightarrow>
        (clip_of (mem w) jid \<noteq> None \<and> d = held_audio (mem w) jid
           \<and> mem (final (z E up p jid j w)) = snd (Take jid (mem w)))
      \<or> (\<exists>bs. d = Some (next_buf (mem w)) \<and> mem (final (z E up p jid j w)) = snd (alloc_buf bs (mem w)))"
proof -
  have "Take jid (mem w) = (clip_of (mem w) jid, snd (Take jid (mem w)))"
    by (simp add: Take_def clip_of_def)
  then show ?thesis
    by (auto simp: z_def fetchAudio_def download_def run_simps world_simps Let_def held_audio_def
        Take_def clip_of_def alloc_buf_def split: option.split sum.split prod.splits)
qed

lemma zeroed_Drop: "zeroed d s \<Longrightarrow> zeroed d (Drop j s)"
  by (cases d)
    (auto simp: Drop_def Zero_def zero_slice_def zeroed_def read_slice_def Let_def
      split: option.splits)

lemma held_zeroed_Drop: "held_audio s j = d \<Longrightarrow> zeroed d (Drop j s)"
  by (auto simp: held_audio_def Drop_zeroes split: option.splits)

lemma next_buf_Drop [simp]: "next_buf (Drop j s) = next_buf s"
  by (simp add: Drop_def Let_def)

lemma releases_same: "releases j (held_audio s j) (next_buf s) s"
  by (auto simp: releases_def)

lemma releases_taken:
  "d = held_audio s j \<Longrightarrow> releases j d (next_buf s) (zero_slice d (snd (Take j s)))"
  by (auto simp: releases_def zeroed_zero_slice Take_def)

lemma releases_absent:
  "clip_of s j = None \<Longrightarrow> releases j (held_audio s j) (next_buf s) (snd (Take j s))"
  by (auto simp: releases_def held_audio_def Take_def)

lemma releases_alloc:
  "releases j (held_audio s j) (next_buf s)
     (zero_slice (Some (next_buf s)) (snd (alloc_buf bs s)))"
  using zeroed_zero_slice [of "Some (next_buf s)" "snd (alloc_buf bs s)"]
  by (auto simp: releases_def alloc_buf_def held_audio_def less_Suc_eq clip_of_def
      zero_slice_def split: option.split)

lemma handle_body_releases:
  "releases (JobID m) (held_audio (mem w) (JobID m)) (next_buf (mem w))
     (mem (final (run (step_op E) (handle_body up p m) w)))"
proof (cases "result (run (step_op E) (Get (JobID m)) w)")
  case (Inl e)
  then show ?thesis by (simp add: handle_body_def run_simps releases_same)
next
  case (Inr j)
  show ?thesis
  proof (cases "job_Status j = StatusCompleted \<or> job_Status j = StatusFailed")
    case True
    with Inr show ?thesis by (simp add: handle_body_def run_simps releases_same)
  next
    case False
    define w1 where "w1 = final (run (step_op E) (update_job (pool_store p) (JobID m)
        processing_fields) (final (run (step_op E) (Get (JobID m)) w)))"
    define z where "z = run (step_op E) (fetchAudio up p (JobID m) j) w1"
    have m1: "mem w1 = mem w" by (simp add: w1_def)
    have S: "mem (final (run (step_op E) (handle_body up p m) w)) =
        (case result z of Inl e \<Rightarrow> mem (final z) | Inr (fn, d) \<Rightarrow> zero_slice d (mem (final z)))"
      using Inr False
      by (simp add: handle_body_def handle_job_def SetProcessing_def run_simps Let_def
          w1_def [symmetric] z_def [symmetric] split: sum.split prod.split)
    from fetchAudio_mem [of E up p "JobID m" j w1] show ?thesis
      by (auto simp: S m1 z_def [symmetric] releases_same releases_taken releases_absent
          releases_alloc split: sum.splits prod.splits)
  qed
qed

lemma handle_audio:
  fixes E up p m w
  defines "s' \<equiv> mem (final (run (step_op E) (handle up p m) w))"
  shows "clip_of s' (JobID m) = None" and "zeroed (held_audio (mem w) (JobID m)) s'"
    and "next_buf (mem w) \<le> a \<Longrightarrow> a < next_buf s' \<Longrightarrow> zeroed (Some a) s'"
proof -
  let ?w = "w\<lparr>in_flight := in_flight w + 1\<rparr>"
  let ?S = "mem (final (run (step_op E) (handle_body up p m) ?w))"
  have s': "s' = Drop (JobID m) ?S" by (simp add: s'_def handle_def run_simps world_simps)
  have r: "releases (JobID m) (held_audio (mem w) (JobID m)) (next_buf (mem w)) ?S"
    using handle_body_releases [of m ?w E up p] by simp
  show "clip_of s' (JobID m) = None" by (simp add: s' clip_of_ops)
  show "zeroed (held_audio (mem w) (JobID m)) s'"
    using r by (auto simp: s' releases_def intro: zeroed_Drop held_zeroed_Drop)
  show "zeroed (Some a) s'" if "next_buf (mem w) \<le> a" "a < next_buf s'"
    using r that by (simp add: s' releases_def zeroed_Drop)
qed

section \<open>Retries\<close>

text \<open>The pauses of a run, and the number of requests it sends upstream.\<close>

definition sleeps :: "op list \<Rightarrow> op list" where
  "sleeps os = filter sleep_op os"

definition posts :: "op list \<Rightarrow> nat" where
  "posts os = length (filter post_op os)"

lemma sleeps_posts_append [simp]:
  "sleeps (xs @ ys) = sleeps xs @ sleeps ys" "posts (xs @ ys) = posts xs + posts ys"
  "sleeps (x # xs) = (if sleep_op x then x # sleeps xs else sleeps xs)"
  "posts (x # xs) = (if post_op x then Suc (posts xs) else posts xs)"
  "sleeps [] = []" "posts [] = 0"
  by (simp_all add: sleeps_def posts_def)

lemma Transcribe_counts:
  "sleeps (ops (run X (Transcribe c f d l) w)) = []"
  "posts (ops (run X (Transcribe c f d l) w)) \<le> 1"
  by (simp_all add: Transcribe_def run_simps split: option.split)

text \<open>
  The turns of the loop from \<open>attempt\<close> on, one equation per value of the counter, with
  the call and its continuation named.
\<close>

definition attempt_call ::
  "pool \<Rightarrow> string \<Rightarrow> nat option \<Rightarrow> string \<Rightarrow> nat \<Rightarrow> (error + string) prog" where
  "attempt_call p f d l attempt =
     bind (Transcribe (pool_whisper p) f d l) (\<lambda>res.
       case res of Inr body \<Rightarrow> Ret (Inr body)
       | Inl err \<Rightarrow> if \<not> IsTransient err then Ret (Inl err)
           else transcribe_loop p f d l (Suc attempt) err)"

lemma transcribe_loop_0: "transcribe_loop p f d l 0 e = attempt_call p f d l 0"
  by (subst transcribe_loop.simps) (simp add: attempt_call_def Let_def)

lemma transcribe_loop_Suc:
  "Suc n \<le> maxRetries \<Longrightarrow> transcribe_loop p f d l (Suc n) e =
     Op (OSleep (retryBaseDelay * 2 ^ n)) (\<lambda>slept.
       if \<not> as_bool slept then
         Op OCtxErr (\<lambda>e. Ret (Inl (ErrWrap ''cancelled during retry backoff: ''
           (case as_err e of Some x \<Rightarrow> x | None \<Rightarrow> CtxCanceled))))
       else attempt_call p f d l (Suc n))"
  by (subst transcribe_loop.simps) (simp add: attempt_call_def Let_def fun_eq_iff)

lemma transcribe_loop_end:
  "\<not> n \<le> maxRetries \<Longrightarrow> transcribe_loop p f d l n e =
     Ret (Inl (ErrWrap (''transcription failed after '' @ show_int (int maxRetries)
       @ '' retries: '') e))"
  by (subst transcribe_loop.simps) simp

lemmas loop_unroll = transcribe_loop_0 transcribe_loop_Suc transcribe_loop_end

lemma attempt_counts:
  fixes X p f d l n w
  defines "os \<equiv> ops (run X (attempt_call p f d l n) w)"
  shows "sleeps os = [] \<and> posts os \<le> 1 \<or>
    (\<exists>e w'. sleeps os = sleeps (ops (run X (transcribe_loop p f d l (Suc n) e) w'))
       \<and> posts os \<le> Suc (posts (ops (run X (transcribe_loop p f d l (Suc n) e) w'))))"
proof -
  let ?t = "run X (Transcribe (pool_whisper p) f d l) w"
  note c = Transcribe_counts [of X "pool_whisper p" f d l w]
  show ?thesis
  proof (cases "\<exists>e. result ?t = Inl e \<and> IsTransient e")
    case True
    then obtain e where e: "result ?t = Inl e" "IsTransient e" by blast
    have "os = ops ?t @ ops (run X (transcribe_loop p f d l (Suc n) e) (final ?t))"
      using e by (simp add: os_def attempt_call_def run_simps)
    with c show ?thesis by (intro disjI2 exI [of _ e] exI [of _ "final ?t"]) simp
  next
    case False
    then have "os = ops ?t"
      by (auto simp: os_def attempt_call_def run_simps split: sum.split)
    with c show ?thesis by simp
  qed
qed

lemma loop_counts:
  fixes X p f d l n e w
  assumes "Suc n \<le> maxRetries"
  defines "os \<equiv> ops (run X (transcribe_loop p f d l (Suc n) e) w)"
  shows "sleeps os = [OSleep (retryBaseDelay * 2 ^ n)] \<and> posts os = 0 \<or>
    (\<exists>w'. sleeps os = OSleep (retryBaseDelay * 2 ^ n) #
            sleeps (ops (run X (attempt_call p f d l (Suc n)) w'))
       \<and> posts os = posts (ops (run X (attempt_call p f d l (Suc n)) w')))"
  using assms(1) by (auto simp: os_def transcribe_loop_Suc run_simps)

lemma retry_counts:
  fixes X p f d l w
  defines "os \<equiv> ops (run X (transcribeWithRetry p f d l) w)"
  shows "\<exists>k \<le> maxRetries. sleeps os = take k [OSleep Second, OSleep (2 * Second)] \<and> posts os \<le> Suc k"
proof -
  have a2: "sleeps (ops (run X (attempt_call p f d l 2) w)) = []
      \<and> posts (ops (run X (attempt_call p f d l 2) w)) \<le> 1" for w
    using attempt_counts [of X p f d l 2 w]
    by (auto simp: transcribe_loop_end maxRetries_def run_simps)
  have l2: "sleeps (ops (run X (transcribe_loop p f d l 2 e) w)) = [OSleep (2 * Second)]
      \<and> posts (ops (run X (transcribe_loop p f d l 2 e) w)) \<le> 1" for e w
    using loop_counts [of 1 X p f d l e w] a2
    by (auto simp: maxRetries_def retryBaseDelay_def numeral_2_eq_2)
  define good where "good k os \<longleftrightarrow>
    sleeps os = take k [OSleep (2 * Second)] \<and> posts os \<le> Suc k" for k os
  have a1: "\<exists>k \<le> 1. good k (ops (run X (attempt_call p f d l 1) w))" for w
    using attempt_counts [of X p f d l 1 w]
  proof
    assume "\<exists>e w'. sleeps (ops (run X (attempt_call p f d l 1) w)) =
        sleeps (ops (run X (transcribe_loop p f d l (Suc 1) e) w')) \<and>
        posts (ops (run X (attempt_call p f d l 1) w))
          \<le> Suc (posts (ops (run X (transcribe_loop p f d l (Suc 1) e) w')))"
    then obtain e w' where "sleeps (ops (run X (attempt_call p f d l 1) w)) =
        sleeps (ops (run X (transcribe_loop p f d l 2 e) w'))"
      "posts (ops (run X (attempt_call p f d l 1) w))
        \<le> Suc (posts (ops (run X (transcribe_loop p f d l 2 e) w')))" by (auto simp: numeral_2_eq_2)
    with l2 [where e = e and w = w'] have "good 1 (ops (run X (attempt_call p f d l 1) w))"
      by (simp add: good_def)
    then show ?thesis by blast
  qed (auto simp: good_def intro: exI [of _ 0])
  have l1: "\<exists>k \<le> 1. sleeps (ops (run X (transcribe_loop p f d l (Suc 0) e) w))
      = OSleep Second # take k [OSleep (2 * Second)]
      \<and> posts (ops (run X (transcribe_loop p f d l (Suc 0) e) w)) \<le> Suc k" for e w
  proof -
    have "Suc 0 \<le> maxRetries" by (simp add: maxRetries_def)
    from loop_counts [OF this, of X p f d l e w] show ?thesis
    proof (elim disjE exE conjE)
      fix w'
      assume "sleeps (ops (run X (transcribe_loop p f d l (Suc 0) e) w))
          = OSleep (retryBaseDelay * 2 ^ 0) # sleeps (ops (run X (attempt_call p f d l (Suc 0)) w'))"
        "posts (ops (run X (transcribe_loop p f d l (Suc 0) e) w))
          = posts (ops (run X (attempt_call p f d l (Suc 0)) w'))"
      with a1 [of w'] show ?thesis by (simp add: retryBaseDelay_def good_def)
    qed (intro exI [of _ 0], simp add: retryBaseDelay_def)
  qed
  have os: "os = ops (run X (attempt_call p f d l 0) w)"
    by (simp add: os_def transcribeWithRetry_def transcribe_loop_0)
  show ?thesis
    using attempt_counts [of X p f d l 0 w, folded os]
  proof (elim disjE exE conjE)
    fix e w'
    assume o': "sleeps os = sleeps (ops (run X (transcribe_loop p f d l (Suc 0) e) w'))"
      "posts os \<le> Suc (posts (ops (run X (transcribe_loop p f d l (Suc 0) e) w')))"
    from l1 [where e = e and w = w'] obtain k where "k \<le> 1"
      "sleeps (ops (run X (transcribe_loop p f d l (Suc 0) e) w'))
        = OSleep Second # take k [OSleep (2 * Second)]"
      "posts (ops (run X (transcribe_loop p f d l (Suc 0) e) w')) \<le> Suc k" by blast
    with o' show ?thesis by (intro exI [of _ "Suc k"]) (simp add: maxRetries_def)
  qed (intro exI [of _ 0], simp)
qed

text \<open>A body that is returned came from a 200 response to this audio.\<close>

definition posted :: "client \<Rightarrow> string \<Rightarrow> string \<Rightarrow> string \<Rightarrow> event list \<Rightarrow> bool" where
  "posted c f l body es \<longleftrightarrow>
     (\<exists>bs resp. (OPost (whisper_request c f bs l) (http_timeout c), RRespE (Inr resp)) \<in> set es
        \<and> resp_status resp = 200 \<and> read_all [] (resp_body resp) = Inr body)"

lemma as_respE_Inr: "as_respE r = Inr resp \<Longrightarrow> r = RRespE (Inr resp)"
  by (cases r) (simp_all add: bad_reply_def)

lemma posted_append: "posted c f l body (xs @ ys) \<longleftrightarrow> posted c f l body xs \<or> posted c f l body ys"
  by (auto simp: posted_def)

lemma posted_Cons: "posted c f l body xs \<Longrightarrow> posted c f l body (x # xs)"
  by (auto simp: posted_def)

lemma Transcribe_posted:
  "result (run X (Transcribe c f d l) w) = Inr body
    \<Longrightarrow> posted c f l body (events (run X (Transcribe c f d l) w))"
  by (auto simp: Transcribe_def run_simps posted_def response_result_cases
      dest!: as_respE_Inr split: option.splits if_splits)

lemma loop_posted:
  "result (run X (transcribe_loop p f d l n e) w) = Inr body
    \<Longrightarrow> posted (pool_whisper p) f l body (events (run X (transcribe_loop p f d l n e) w))"
proof (induction p f d l n e arbitrary: w rule: transcribe_loop.induct)
  case (1 p f d l n e)
  show ?case
  proof (cases "n \<le> maxRetries")
    case False
    with "1.prems" show ?thesis by (simp add: transcribe_loop_end run_simps)
  next
    case True
    have call: "posted (pool_whisper p) f l body (events (run X (attempt_call p f d l n) w))"
      if "result (run X (attempt_call p f d l n) w) = Inr body" for w
      using that True "1.IH"
      by (auto simp: attempt_call_def run_simps posted_append Transcribe_posted
          split: sum.splits if_splits)
    show ?thesis
    proof (cases n)
      case 0
      with "1.prems" call show ?thesis by (simp add: transcribe_loop_0)
    next
      case (Suc k)
      with "1.prems" True call show ?thesis
        by (auto simp: transcribe_loop_Suc run_simps intro!: posted_Cons split: if_splits)
    qed
  qed
qed

text \<open>The only place that stores a result is the end of a successful transcription.\<close>

definition stores :: "store \<Rightarrow> string \<Rightarrow> string \<Rightarrow> op \<Rightarrow> bool" where
  "stores s jid body o' \<longleftrightarrow> (\<exists>at. o' = OTx (update_cmds s jid (completed_fields body at)))"

lemma stores_redis: "stores s jid body o' \<Longrightarrow> redis_op o'"
  by (auto simp: stores_def)

lemma not_stores [simp]:
  "\<not> stores s jid body (OTx (update_cmds s' jid' processing_fields))"
  "\<not> stores s jid body (OTx (update_cmds s' jid' (failed_fields msg at)))"
  "\<not> stores s jid body (OTx (ack_cmds i))"
  "\<not> stores s jid body (OHGetAll k)" "\<not> stores s jid body (OZeroSlice d)"
  "\<not> stores s jid body ONow" "\<not> stores s jid body (OInFlight n)" "\<not> stores s jid body (ODrop k)"
  by (auto simp: stores_def update_cmds_def ack_cmds_def processing_fields_def failed_fields_def
      completed_fields_def)

lemma fetch_not_stores:
  "o' \<in> set (ops (run X (fetchAudio up p jid' j) w)) \<Longrightarrow> \<not> stores s jid body o'"
  "o' \<in> set (ops (run X (transcribeWithRetry p f d l) w)) \<Longrightarrow> \<not> stores s jid body o'"
  using only_ops [OF only_fetchAudio, of o' X up p jid' j w]
    only_ops [OF only_transcribeWithRetry, of o' X p f d l w]
  by (auto dest: stores_redis classes)

lemma fail_not_stores:
  "o' \<in> set (ops (run X (fail p m e) w)) \<Longrightarrow> \<not> stores s jid body o'"
  by (auto simp: fail_def SetFailed_def run_simps run_store_simps ops_nowRFC3339 ops_ack)

lemma result_stores:
  "o' \<in> set (ops (run X (handle_result p m d res) w)) \<Longrightarrow> stores s jid body o' \<Longrightarrow> res = Inr body"
  by (cases res)
    (auto simp: handle_result_def SetCompleted_def run_simps run_store_simps ops_nowRFC3339 ops_ack
      fail_not_stores, auto simp: stores_def update_cmds_def completed_fields_def)

end
