(* ===== verification/Go_JSON.thy ===== *)
theory Go_JSON
  imports Go_Strings
begin

text \<open>
  Reading JSON as Go's \<open>encoding/json\<close> does: the scanner behind \<open>json.Valid\<close> and the
  values that \<open>Decoder.Decode\<close> sees. A document is a list of bytes; the bytes of a
  string are decoded on the way (escapes, UTF-8, the replacement of invalid bytes), a
  number is kept as its text. Nesting deeper than \<open>max_nesting\<close> is an error, as in the
  scanner. \<open>parse_value\<close> reads one value and gives the rest of the input.
\<close>

section \<open>UTF-8\<close>

text \<open>The ranges of the bytes that may follow a lead byte; none for other bytes.\<close>

definition cont_ranges :: "char \<Rightarrow> (nat \<times> nat) list" where
  "cont_ranges c =
     (if 0xC2 \<le> code c \<and> code c \<le> 0xDF then [(0x80, 0xBF)]
      else if code c = 0xE0 then [(0xA0, 0xBF), (0x80, 0xBF)]
      else if code c = 0xED then [(0x80, 0x9F), (0x80, 0xBF)]
      else if 0xE1 \<le> code c \<and> code c \<le> 0xEF then [(0x80, 0xBF), (0x80, 0xBF)]
      else if code c = 0xF0 then [(0x90, 0xBF), (0x80, 0xBF), (0x80, 0xBF)]
      else if code c = 0xF4 then [(0x80, 0x8F), (0x80, 0xBF), (0x80, 0xBF)]
      else if 0xF1 \<le> code c \<and> code c \<le> 0xF3 then [(0x80, 0xBF), (0x80, 0xBF), (0x80, 0xBF)]
      else [])"

primrec in_ranges :: "(nat \<times> nat) list \<Rightarrow> string \<Rightarrow> bool" where
  "in_ranges [] cs \<longleftrightarrow> True"
| "in_ranges (r # rs) cs \<longleftrightarrow>
     (case cs of [] \<Rightarrow> False | x # xs \<Rightarrow> fst r \<le> code x \<and> code x \<le> snd r \<and> in_ranges rs xs)"

text \<open>\<open>utf8.DecodeRune\<close>: how many bytes of \<open>cs\<close> belong to the rune that \<open>c\<close> starts, 0 for
  an invalid encoding.\<close>

definition rune_tail :: "char \<Rightarrow> string \<Rightarrow> nat" where
  "rune_tail c cs = (if in_ranges (cont_ranges c) cs then length (cont_ranges c) else 0)"

text \<open>\<open>utf8.EncodeRune\<close> of a code point that is not a surrogate.\<close>

definition utf8 :: "nat \<Rightarrow> string" where
  "utf8 n =
     (if n < 0x80 then [char_of n]
      else if n < 0x800 then [char_of (0xC0 + n div 64), char_of (0x80 + n mod 64)]
      else if n < 0x10000 then
        [char_of (0xE0 + n div 4096), char_of (0x80 + n div 64 mod 64), char_of (0x80 + n mod 64)]
      else
        [char_of (0xF0 + n div 262144), char_of (0x80 + n div 4096 mod 64),
         char_of (0x80 + n div 64 mod 64), char_of (0x80 + n mod 64)])"

definition replacement :: string where
  "replacement = [CHR 0xEF, CHR 0xBF, CHR 0xBD]"

section \<open>Strings\<close>

definition hex_val :: "char \<Rightarrow> nat option" where
  "hex_val c =
     (if is_digit c then Some (code c - 48)
      else if 97 \<le> code c \<and> code c \<le> 102 then Some (code c - 87)
      else if 65 \<le> code c \<and> code c \<le> 70 then Some (code c - 55)
      else None)"

primrec hex_digits :: "nat \<Rightarrow> nat \<Rightarrow> string \<Rightarrow> nat option" where
  "hex_digits 0 acc cs = Some acc"
| "hex_digits (Suc n) acc cs =
     (case cs of [] \<Rightarrow> None
      | c # ds \<Rightarrow> (case hex_val c of None \<Rightarrow> None | Some d \<Rightarrow> hex_digits n (16 * acc + d) ds))"

definition hex4 :: "string \<Rightarrow> nat option" where
  "hex4 cs = hex_digits 4 0 cs"

definition simple_escapes :: "(char \<times> char) list" where
  "simple_escapes =
     [(CHR 0x22, CHR 0x22), (CHR 0x5C, CHR 0x5C), (CHR ''/'', CHR ''/''), (CHR ''b'', CHR 0x08),
      (CHR ''f'', CHR 0x0C), (CHR ''n'', CHR 0x0A), (CHR ''r'', CHR 0x0D), (CHR ''t'', CHR 0x09)]"

text \<open>The second half of a surrogate pair, when \<open>cs\<close> starts with its escape.\<close>

definition low_surrogate :: "nat \<Rightarrow> string \<Rightarrow> nat option" where
  "low_surrogate hi cs =
     (if hi < 0xDC00 \<and> take 2 cs = [CHR 0x5C, CHR ''u''] then
        (case hex4 (drop 2 cs) of None \<Rightarrow> None
         | Some lo \<Rightarrow>
             if 0xDC00 \<le> lo \<and> lo < 0xE000
             then Some (0x10000 + (hi - 0xD800) * 1024 + (lo - 0xDC00)) else None)
      else None)"

text \<open>The bytes an escape stands for, and how many bytes after the backslash it takes.\<close>

definition escape :: "string \<Rightarrow> (string \<times> nat) option" where
  "escape cs =
     (case cs of [] \<Rightarrow> None
      | e # ds \<Rightarrow>
          if e = CHR ''u'' then
            (case hex4 ds of None \<Rightarrow> None
             | Some n \<Rightarrow>
                 if 0xD800 \<le> n \<and> n < 0xE000 then
                   (case low_surrogate n (drop 4 ds) of
                      None \<Rightarrow> Some (replacement, 5)
                    | Some m \<Rightarrow> Some (utf8 m, 11))
                 else Some (utf8 n, 5))
          else map_option (\<lambda>b. ([b], 1)) (map_of simple_escapes e))"

text \<open>One character of a string: its bytes, and how many bytes after \<open>c\<close> it takes.\<close>

definition str_unit :: "char \<Rightarrow> string \<Rightarrow> (string \<times> nat) option" where
  "str_unit c cs =
     (if c = CHR 0x5C then escape cs
      else if code c < 0x20 then None
      else if code c < 0x80 then Some ([c], 0)
      else if rune_tail c cs = 0 then Some (replacement, 0)
      else Some (c # take (rune_tail c cs) cs, rune_tail c cs))"

text \<open>The rest of a string after its opening quote.\<close>

function str_body :: "string \<Rightarrow> (string \<times> string) option" where
  "str_body s =
     (case s of [] \<Rightarrow> None
      | c # cs \<Rightarrow>
          if c = CHR 0x22 then Some ([], cs)
          else (case str_unit c cs of None \<Rightarrow> None
                | Some (bs, k) \<Rightarrow> map_option (apfst (append bs)) (str_body (drop k cs))))"
  by pat_completeness auto
termination by (relation "measure length") simp_all

declare str_body.simps [simp del]

lemma str_body_Nil [simp]: "str_body [] = None"
  by (simp add: str_body.simps [of "[]"])

lemma str_body_quote [simp]: "str_body (CHR 0x22 # cs) = Some ([], cs)"
  by (simp add: str_body.simps [of "_ # _"])

lemma str_body_unit:
  "c \<noteq> CHR 0x22 \<Longrightarrow> str_unit c cs = Some (bs, k)
    \<Longrightarrow> str_body (c # cs) = map_option (apfst (append bs)) (str_body (drop k cs))"
  by (simp add: str_body.simps [of "_ # _"])

lemma str_body_length: "str_body s = Some (bs, r) \<Longrightarrow> length r < length s"
proof (induction s arbitrary: bs rule: str_body.induct)
  case (1 s)
  from "1.prems" obtain c cs where s: "s = c # cs" by (cases s) simp_all
  show ?case
  proof (cases "c = CHR 0x22")
    case False
    with "1.prems" s obtain us k bs' where u: "str_unit c cs = Some (us, k)"
        "str_body (drop k cs) = Some (bs', r)"
      by (auto simp: str_body.simps [of "_ # _"] split: option.splits)
    from "1.IH" [OF s False u(1) refl u(2)] show ?thesis by (simp add: s)
  qed (use "1.prems" s in simp)
qed

section \<open>Numbers and literals\<close>

definition json_space :: "char \<Rightarrow> bool" where
  "json_space c \<longleftrightarrow> c = CHR 0x20 \<or> c = CHR 0x09 \<or> c = CHR 0x0D \<or> c = CHR 0x0A"

definition skip_ws :: "string \<Rightarrow> string" where
  "skip_ws s = dropWhile json_space s"

lemma skip_ws_length [termination_simp]: "length (skip_ws s) \<le> length s"
  by (simp add: skip_ws_def length_dropWhile_le)

lemma skip_ws_simps [simp]:
  "skip_ws [] = []" "\<not> json_space c \<Longrightarrow> skip_ws (c # cs) = c # cs"
  "json_space c \<Longrightarrow> skip_ws (c # cs) = skip_ws cs" "skip_ws (skip_ws s) = skip_ws s"
  by (simp_all add: skip_ws_def)

definition digits :: "string \<Rightarrow> (string \<times> string) option" where
  "digits s = (let ds = takeWhile is_digit s in if ds = [] then None else Some (ds, drop (length ds) s))"

definition int_part :: "string \<Rightarrow> (string \<times> string) option" where
  "int_part s =
     (case s of [] \<Rightarrow> None
      | c # cs \<Rightarrow> if c = CHR ''0'' then Some ([c], cs) else digits s)"

definition frac_part :: "string \<Rightarrow> (string \<times> string) option" where
  "frac_part s =
     (case s of [] \<Rightarrow> Some ([], [])
      | c # cs \<Rightarrow> if c = CHR ''.'' then map_option (apfst (Cons c)) (digits cs) else Some ([], s))"

definition exp_part :: "string \<Rightarrow> (string \<times> string) option" where
  "exp_part s =
     (case s of [] \<Rightarrow> Some ([], [])
      | c # cs \<Rightarrow>
          if c = CHR ''e'' \<or> c = CHR ''E'' then
            (case cs of [] \<Rightarrow> None
             | g # ds \<Rightarrow>
                 if g = CHR ''+'' \<or> g = CHR ''-'' then map_option (apfst (\<lambda>x. c # g # x)) (digits ds)
                 else map_option (apfst (Cons c)) (digits cs))
          else Some ([], s))"

definition number :: "string \<Rightarrow> (string \<times> string) option" where
  "number s =
     (let (sign, s1) = (case s of [] \<Rightarrow> ([], s) | c # cs \<Rightarrow> if c = CHR ''-'' then ([c], cs) else ([], s))
      in case int_part s1 of None \<Rightarrow> None
         | Some (a, s2) \<Rightarrow>
             (case frac_part s2 of None \<Rightarrow> None
              | Some (b, s3) \<Rightarrow>
                  (case exp_part s3 of None \<Rightarrow> None
                   | Some (e, s4) \<Rightarrow> Some (sign @ a @ b @ e, s4))))"

section \<open>Values\<close>

datatype jvalue =
    VNull
  | VBool bool
  | VNumber string
  | VString string
  | VArray "jvalue list"
  | VObject "(string \<times> jvalue) list"

definition literals :: "(string \<times> jvalue) list" where
  "literals = [(''null'', VNull), (''true'', VBool True), (''false'', VBool False)]"

definition scalar :: "string \<Rightarrow> (jvalue \<times> string) option" where
  "scalar s =
     (case filter (\<lambda>(l, v). has_prefix s l) literals of
        (l, v) # _ \<Rightarrow> Some (v, drop (length l) s)
      | [] \<Rightarrow> map_option (apfst VNumber) (number s))"

text \<open>
  One value, the elements of an array after its bracket, the members of an object after
  its brace. \<open>d\<close> is the number of brackets that may still be opened. The tests on the
  length of the rest always succeed (\<open>parse_length\<close>); they make the recursion evident.
\<close>

function parse_value :: "nat \<Rightarrow> string \<Rightarrow> (jvalue \<times> string) option"
  and parse_elements :: "nat \<Rightarrow> string \<Rightarrow> (jvalue list \<times> string) option"
  and parse_members :: "nat \<Rightarrow> string \<Rightarrow> ((string \<times> jvalue) list \<times> string) option" where
  "parse_value d s =
     (case skip_ws s of [] \<Rightarrow> None
      | c # cs \<Rightarrow>
          if \<not> length cs < length s then None
          else if c = CHR 0x22 then map_option (apfst VString) (str_body cs)
          else if c = CHR ''['' then
            (if d = 0 then None
             else (case skip_ws cs of [] \<Rightarrow> None
                   | x # xs \<Rightarrow>
                       if x = CHR '']'' then Some (VArray [], xs)
                       else map_option (apfst VArray) (parse_elements (d - 1) cs)))
          else if c = CHR ''{'' then
            (if d = 0 then None
             else (case skip_ws cs of [] \<Rightarrow> None
                   | x # xs \<Rightarrow>
                       if x = CHR ''}'' then Some (VObject [], xs)
                       else map_option (apfst VObject) (parse_members (d - 1) cs)))
          else scalar (c # cs))"
| "parse_elements d s =
     (case parse_value d s of None \<Rightarrow> None
      | Some (v, r) \<Rightarrow>
          (case skip_ws r of [] \<Rightarrow> None
           | c # cs \<Rightarrow>
               if c = CHR '']'' then Some ([v], cs)
               else if c = CHR '','' \<and> length cs < length s
               then map_option (apfst (Cons v)) (parse_elements d cs)
               else None))"
| "parse_members d s =
     (case skip_ws s of [] \<Rightarrow> None
      | q # qs \<Rightarrow>
          if q \<noteq> CHR 0x22 then None
          else
            (case str_body qs of None \<Rightarrow> None
             | Some (k, r1) \<Rightarrow>
                 (case skip_ws r1 of [] \<Rightarrow> None
                  | c # cs \<Rightarrow>
                      if c \<noteq> CHR '':'' \<or> \<not> length cs < length s then None
                      else
                        (case parse_value d cs of None \<Rightarrow> None
                         | Some (v, r2) \<Rightarrow>
                             (case skip_ws r2 of [] \<Rightarrow> None
                              | e # es \<Rightarrow>
                                  if e = CHR ''}'' then Some ([(k, v)], es)
                                  else if e = CHR '','' \<and> length es < length s
                                  then map_option (apfst (Cons (k, v))) (parse_members d es)
                                  else None)))))"
  by pat_completeness auto
termination
  by (relation "measure (\<lambda>x. case x of Inl (d, s) \<Rightarrow> 2 * length s
        | Inr (Inl (d, s)) \<Rightarrow> 2 * length s + 1 | Inr (Inr (d, s)) \<Rightarrow> 2 * length s + 1)") auto

declare parse_value.simps [simp del] parse_elements.simps [simp del] parse_members.simps [simp del]

text \<open>A whole document: one value and white space.\<close>

definition max_nesting :: nat where "max_nesting = 10000"

definition parse_document :: "nat \<Rightarrow> string \<Rightarrow> jvalue option" where
  "parse_document d s =
     (case parse_value d s of None \<Rightarrow> None
      | Some (v, r) \<Rightarrow> if skip_ws r = [] then Some v else None)"

definition json_Valid :: "string \<Rightarrow> bool" where
  "json_Valid s \<longleftrightarrow> parse_document max_nesting s \<noteq> None"

end
