(* ===== verification/JSON_Encode.thy ===== *)
theory JSON_Encode
  imports Go_JSON Go_Errors "HOL-Library.List_Lexorder" "HOL-Library.Char_ord"
begin

text \<open>
  Writing JSON as \<open>json.NewEncoder(w).Encode\<close> does: maps with their keys sorted, strings
  with HTML characters and invalid UTF-8 escaped, a \<open>json.RawMessage\<close> compacted.
\<close>

section \<open>Encoding\<close>

text \<open>The values the program encodes: \<open>nil\<close>, \<open>bool\<close>, integers, strings,
  \<open>json.RawMessage\<close> and maps with string keys.\<close>

datatype json =
    JNull
  | JBool bool
  | JNum int
  | JStr string
  | JRaw string
  | JObj "(string \<times> json) list"

definition html :: "char \<Rightarrow> bool" where
  "html c \<longleftrightarrow> c = CHR ''<'' \<or> c = CHR ''>'' \<or> c = CHR ''&''"

definition unicode_escape :: "char \<Rightarrow> string" where
  "unicode_escape c =
     [CHR 0x5C, CHR ''u'', CHR ''0'', CHR ''0'', hex_digit (code c div 16), hex_digit (code c mod 16)]"

text \<open>U+2028 and U+2029 are \<open>E2 80 A8\<close> and \<open>E2 80 A9\<close>: the last digit of the code point.\<close>

definition line_separator :: "char \<Rightarrow> string \<Rightarrow> char option" where
  "line_separator c cs =
     (if c = CHR 0xE2 then
        if take 2 cs = [CHR 0x80, CHR 0xA8] then Some (CHR ''8'')
        else if take 2 cs = [CHR 0x80, CHR 0xA9] then Some (CHR ''9'')
        else None
      else None)"

definition escape_ascii :: "char \<Rightarrow> string" where
  "escape_ascii c =
     (if c = CHR 0x22 \<or> c = CHR 0x5C then [CHR 0x5C, c]
      else if c = CHR 0x08 then [CHR 0x5C, CHR ''b'']
      else if c = CHR 0x0C then [CHR 0x5C, CHR ''f'']
      else if c = CHR 0x0A then [CHR 0x5C, CHR ''n'']
      else if c = CHR 0x0D then [CHR 0x5C, CHR ''r'']
      else if c = CHR 0x09 then [CHR 0x5C, CHR ''t'']
      else if code c < 0x20 \<or> html c then unicode_escape c
      else [c])"

text \<open>The escaped bytes of one character, and how many bytes after \<open>c\<close> it takes.\<close>

definition escape_unit :: "char \<Rightarrow> string \<Rightarrow> string \<times> nat" where
  "escape_unit c cs =
     (if code c < 0x80 then (escape_ascii c, 0)
      else if rune_tail c cs = 0 then (CHR 0x5C # ''ufffd'', 0)
      else (case line_separator c cs of
              Some x \<Rightarrow> (CHR 0x5C # ''u202'' @ [x], 2)
            | None \<Rightarrow> (c # take (rune_tail c cs) cs, rune_tail c cs)))"

fun escape_body :: "string \<Rightarrow> string" where
  "escape_body [] = []"
| "escape_body (c # cs) = fst (escape_unit c cs) @ escape_body (drop (snd (escape_unit c cs)) cs)"

definition encode_string :: "string \<Rightarrow> string" where
  "encode_string s = CHR 0x22 # escape_body s @ [CHR 0x22]"

text \<open>
  \<open>json.Compact\<close> as the encoder applies it to a raw message: white space outside strings
  is dropped and the HTML characters and line separators are escaped; \<open>q\<close> tells whether
  the position is inside a string.
\<close>

function compact :: "bool \<Rightarrow> string \<Rightarrow> string" where
  "compact q s =
     (case s of [] \<Rightarrow> []
      | c # cs \<Rightarrow>
          if html c then unicode_escape c @ compact q cs
          else
            (case line_separator c cs of
               Some x \<Rightarrow> CHR 0x5C # ''u202'' @ x # compact q (drop 2 cs)
             | None \<Rightarrow>
                 if \<not> q then (if json_space c then compact q cs else c # compact (c = CHR 0x22) cs)
                 else if c = CHR 0x5C then
                   (case cs of [] \<Rightarrow> [c] | e # ds \<Rightarrow> c # e # compact q ds)
                 else c # compact (c \<noteq> CHR 0x22) cs))"
  by pat_completeness auto
termination by (relation "measure (length \<circ> snd)") auto

declare compact.simps [simp del]

fun join :: "string list \<Rightarrow> string" where
  "join [] = []"
| "join [x] = x"
| "join (x # xs) = x @ CHR '','' # join xs"

primrec encode :: "json \<Rightarrow> string" where
  "encode JNull = ''null''"
| "encode (JBool b) = (if b then ''true'' else ''false'')"
| "encode (JNum n) = show_int n"
| "encode (JStr s) = encode_string s"
| "encode (JRaw s) = compact False s"
| "encode (JObj m) =
     CHR ''{'' # join (map (\<lambda>(k, e). encode_string k @ CHR '':'' # e)
                      (sort_key fst (map (map_prod id encode) m))) @ [CHR ''}'']"

declare encode.simps [simp del] escape_body.simps [simp del]

text \<open>\<open>Encode\<close> ends the document with a newline.\<close>

definition encode_document :: "json \<Rightarrow> string" where
  "encode_document j = encode j @ [CHR 0x0A]"

section \<open>The value behind a document\<close>

text \<open>A string as a JSON reader sees it: invalid bytes are replaced.\<close>

fun valid_utf8 :: "string \<Rightarrow> string" where
  "valid_utf8 [] = []"
| "valid_utf8 (c # cs) =
     (if code c < 0x80 then c # valid_utf8 cs
      else if rune_tail c cs = 0 then replacement @ valid_utf8 cs
      else c # take (rune_tail c cs) cs @ valid_utf8 (drop (rune_tail c cs) cs))"

primrec json_value :: "json \<Rightarrow> jvalue" where
  "json_value JNull = VNull"
| "json_value (JBool b) = VBool b"
| "json_value (JNum n) = VNumber (show_int n)"
| "json_value (JStr s) = VString (valid_utf8 s)"
| "json_value (JRaw s) = (case parse_document max_nesting s of None \<Rightarrow> VNull | Some v \<Rightarrow> v)"
| "json_value (JObj m) =
     VObject (map (apfst valid_utf8) (sort_key fst (map (map_prod id json_value) m)))"

end
