(* ===== verification/Server.thy ===== *)
theory Server
  imports Redis_Store Config JSON_Encode Whisper_Client
begin

text \<open>
  \<open>internal/server/server.go\<close> and \<open>helpers.go\<close>: the HTTP API. A request carries what
  \<open>net/http\<close> hands a handler: the method, the segments of the cleaned path, the headers
  under their canonical names, and its body as the reads of the connection. A multipart
  body is given by the form it parses to, URL parsing is a parameter; JSON is decoded and
  encoded byte by byte (\<open>Go_JSON\<close>, \<open>JSON_Encode\<close>). A handler is a program that returns the
  response.
\<close>

section \<open>Requests and responses\<close>

text \<open>\<open>FormFile("audio")\<close>: the header and the reads of the opened file, or its error.\<close>

record upload_file =
  up_Filename :: string
  up_Size :: int
  up_reads :: reads

record upload_form =
  form_audio :: "error + upload_file"
  form_values :: "(string \<times> string) list"

record urlRequest =
  ur_URL :: string
  ur_Language :: string

record http_request =
  hr_method :: string
  hr_path :: "string list"
  hr_headers :: "(string \<times> string) list"
  hr_multipart :: "int \<Rightarrow> error + upload_form"
  hr_body :: reads

record http_response =
  hs_status :: int
  hs_headers :: "(string \<times> string) list"
  hs_body :: string

record url =
  Scheme :: string
  Host :: string
  Path :: string

record server =
  srv_cfg :: config
  srv_store :: store

text \<open>The audio store and the pool's counter are in the world, the identifiers are \<open>newJobID\<close>.\<close>

definition New_server :: "config \<Rightarrow> store \<Rightarrow> server" where
  "New_server cfg st = \<lparr>srv_cfg = cfg, srv_store = st\<rparr>"

text \<open>\<open>r.Header.Get\<close> and \<open>r.FormValue\<close>.\<close>

definition header :: "http_request \<Rightarrow> string \<Rightarrow> string" where
  "header r name = hget (hr_headers r) name"

definition form_value :: "upload_form \<Rightarrow> string \<Rightarrow> string" where
  "form_value f name = hget (form_values f) name"

section \<open>helpers.go\<close>

definition now_rfc3339 :: "string prog" where
  "now_rfc3339 = Op ONow (\<lambda>r. Ret (rfc3339 (as_int r)))"

definition newQueuedJob :: "string \<Rightarrow> source \<Rightarrow> string \<Rightarrow> string \<Rightarrow> job prog" where
  "newQueuedJob jid src jobURL language =
     bind now_rfc3339 (\<lambda>now.
       Ret (zero_job\<lparr>job_ID := jid, job_Status := StatusQueued, job_Source := src,
              job_URL := jobURL, job_Language := language, job_CreatedAt := now\<rparr>))"

definition rawOrString :: "string \<Rightarrow> json" where
  "rawOrString s = (if json_Valid s then JRaw s else JStr s)"

definition jobView :: "job \<Rightarrow> (string \<times> json) list" where
  "jobView j =
     [(''jobId'', JStr (job_ID j)), (''status'', JStr (job_Status j)),
      (''createdAt'', JStr (job_CreatedAt j))]
     @ (if job_CompletedAt j \<noteq> [] then [(''completedAt'', JStr (job_CompletedAt j))] else [])
     @ (if job_Error j \<noteq> [] then [(''error'', JStr (job_Error j))] else [])
     @ (if job_Result j \<noteq> [] then [(''result'', rawOrString (job_Result j))] else [])"

definition writeJSON :: "int \<Rightarrow> json \<Rightarrow> http_response" where
  "writeJSON status body =
     \<lparr>hs_status = status, hs_headers = [(''Content-Type'', ''application/json; charset=utf-8'')],
      hs_body = encode_document body\<rparr>"

definition writeError :: "int \<Rightarrow> string \<Rightarrow> http_response" where
  "writeError status msg = writeJSON status (JObj [(''error'', JStr msg)])"

primrec firstNonEmpty :: "string list \<Rightarrow> string" where
  "firstNonEmpty [] = []"
| "firstNonEmpty (v # values) = (if v \<noteq> [] then v else firstNonEmpty values)"

definition errString :: "error option \<Rightarrow> json" where
  "errString err = (case err of None \<Rightarrow> JNull | Some e \<Rightarrow> JStr (error_text e))"

definition isHTTPURL :: "(string \<Rightarrow> url option) \<Rightarrow> string \<Rightarrow> bool" where
  "isHTTPURL url_parse raw =
     (case url_parse raw of
        None \<Rightarrow> False
      | Some u \<Rightarrow> (Scheme u = ''http'' \<or> Scheme u = ''https'') \<and> Host u \<noteq> [])"

section \<open>Authentication\<close>

definition bearer_prefix :: string where "bearer_prefix = ''Bearer ''"

definition extractAPIKey :: "http_request \<Rightarrow> string" where
  "extractAPIKey r =
     (let key = header r ''X-Api-Key''
      in if key \<noteq> [] then key
         else
           let auth = header r ''Authorization''
           in if auth \<noteq> [] \<and> length auth > length bearer_prefix
                \<and> equal_fold (take (length bearer_prefix) auth) bearer_prefix
              then trim_space (drop (length bearer_prefix) auth)
              else [])"

text \<open>\<open>subtle.ConstantTimeCompare\<close> is 1 exactly when the two byte slices are equal.\<close>

definition auth ::
  "server \<Rightarrow> (http_request \<Rightarrow> http_response prog) \<Rightarrow> http_request \<Rightarrow> http_response prog" where
  "auth s next r =
     (let key = extractAPIKey r
      in if key \<noteq> cfg_APIKey (srv_cfg s)
         then Ret (writeError 401 ''invalid or missing API key (X-API-Key or Authorization: Bearer)'')
         else next r)"

section \<open>Handlers\<close>

definition handleEnqueueError :: "error \<Rightarrow> http_response" where
  "handleEnqueueError err =
     (if errors_is err ErrQueueFull then
        (writeError 429 ''queue is full, retry later'')
          \<lparr>hs_headers := [(''Retry-After'', ''30''),
             (''Content-Type'', ''application/json; charset=utf-8'')]\<rparr>
      else writeError 500 ''failed to enqueue job'')"

definition accepted :: "string \<Rightarrow> http_response" where
  "accepted jid = writeJSON 202 (JObj [(''jobId'', JStr jid), (''status'', JStr StatusQueued)])"

definition handleHealth :: "server \<Rightarrow> http_request \<Rightarrow> http_response prog" where
  "handleHealth s r =
     bind QueueLen (\<lambda>queueRes.
     bind Ping (\<lambda>pingErr.
     Op OMemStats (\<lambda>heap.
     Op ONow (\<lambda>nowR.
     Op OInFlightLoad (\<lambda>inflight.
     Op OClips (\<lambda>held.
       let redisOK = (pingErr = None);
           status = (if \<not> redisOK then ''degraded'' else ''ok'');
           hcode = (if \<not> redisOK then 503 else 200);
           now = as_int nowR;
           w = cfg_WhisperWindow (srv_cfg s)
       in Ret (writeJSON hcode (JObj
            [(''status'', JStr status),
             (''queueDepth'', JNum (case queueRes of Inl _ \<Rightarrow> 0 | Inr n \<Rightarrow> n)),
             (''queueError'', errString (case queueRes of Inl e \<Rightarrow> Some e | Inr _ \<Rightarrow> None)),
             (''inFlight'', JNum (as_int inflight)),
             (''audioInMemory'', JNum (as_int held)),
             (''redisOk'', JBool redisOK),
             (''upstream'', JStr (cfg_WhisperUpstreamURL (srv_cfg s))),
             (''heapAllocMB'', JNum (as_int heap div 2 ^ 20)),
             (''whisperWindow'', JObj
                [(''enabled'', JBool (Enabled w)),
                 (''open'', JBool (IsOpen w now)),
                 (''nextOpenSeconds'', JNum (NextOpen w now div Second))])]))))))))"

text \<open>The loop that reads the uploaded file; the error is the response to send.\<close>

fun read_upload :: "int \<Rightarrow> string \<Rightarrow> reads \<Rightarrow> http_response + string" where
  "read_upload maxBytes data [] = Inr data"
| "read_upload maxBytes data ((bs, readErr) # rs) =
     (let data' = (if length bs > 0 then data @ bs else data)
      in if length bs > 0 \<and> int (length data') > maxBytes
         then Inl (writeError 413 ''audio exceeds MAX_AUDIO_BYTES'')
         else
           (case readErr of
              Some e \<Rightarrow>
                if errors_is e IoEOF then Inr data'
                else Inl (writeError 400 ''failed to read audio'')
            | None \<Rightarrow> read_upload maxBytes data' rs))"

definition upload_limit :: "config \<Rightarrow> int" where
  "upload_limit c = s64 (cfg_MaxAudioBytes c + 2 ^ 20)"

text \<open>The part of \<open>handleUpload\<close> up to the identifier: the file name, bytes and language.\<close>

definition parse_upload ::
  "server \<Rightarrow> http_request \<Rightarrow> http_response + (string \<times> string \<times> string)" where
  "parse_upload s r =
     (case hr_multipart r (upload_limit (srv_cfg s)) of
        Inl _ \<Rightarrow> Inl (writeError 413 ''audio exceeds MAX_AUDIO_BYTES or malformed form'')
      | Inr form \<Rightarrow>
          (case form_audio form of
             Inl _ \<Rightarrow> Inl (writeError 400 ''missing required 'audio' file field'')
           | Inr file \<Rightarrow>
               if up_Size file > cfg_MaxAudioBytes (srv_cfg s)
               then Inl (writeError 413 ''audio exceeds MAX_AUDIO_BYTES'')
               else
                 (case read_upload (cfg_MaxAudioBytes (srv_cfg s)) [] (up_reads file) of
                    Inl resp \<Rightarrow> Inl resp
                  | Inr data \<Rightarrow>
                      Inr (up_Filename file, data,
                        firstNonEmpty [form_value form ''language'',
                          cfg_DefaultLanguage (srv_cfg s)]))))"

definition handleUpload :: "server \<Rightarrow> string prog \<Rightarrow> http_request \<Rightarrow> http_response prog" where
  "handleUpload s newID r =
     (case parse_upload s r of
        Inl resp \<Rightarrow> Ret resp
      | Inr (filename, data, language) \<Rightarrow>
          bind newID (\<lambda>jid.
          Op (OAlloc data) (\<lambda>d.
          Op (OPut jid filename (as_slice d)) (\<lambda>_.
          bind (newQueuedJob jid SourceUpload [] language) (\<lambda>j.
          bind (CreateAndEnqueue (srv_store s) j) (\<lambda>res.
            case res of
              Some err \<Rightarrow> Op (ODrop jid) (\<lambda>_. Ret (handleEnqueueError err))
            | None \<Rightarrow> Ret (accepted jid)))))))"

text \<open>
  \<open>http.MaxBytesReader\<close> delivers at most \<open>n\<close> bytes, and an error of its own when there are
  more: the bytes of the body and the error that ends them.
\<close>

fun received :: "reads \<Rightarrow> string \<times> error" where
  "received [] = ([], IoEOF)"
| "received ((bs, None) # rs) = (bs @ fst (received rs), snd (received rs))"
| "received ((bs, Some e) # rs) = (bs, e)"

definition max_bytes :: "nat \<Rightarrow> string \<times> error \<Rightarrow> string \<times> error" where
  "max_bytes n b =
     (if length (fst b) > n then (take n (fst b), ErrNew ''http: request body too large'') else b)"

text \<open>
  \<open>Decoder.Decode\<close> reads the first value and leaves what follows. An array or an object is
  complete with its bracket; the end of another value shows only by the next byte or EOF.
\<close>

definition decode_value :: "string \<times> error \<Rightarrow> jvalue option" where
  "decode_value b =
     (case parse_value max_nesting (fst b) of None \<Rightarrow> None
      | Some (v, r) \<Rightarrow>
          (case v of
             VArray vs \<Rightarrow> Some v
           | VObject ms \<Rightarrow> Some v
           | _ \<Rightarrow> if r = [] \<and> snd b \<noteq> IoEOF then None else Some v))"

text \<open>
  Decoding into a \<open>urlRequest\<close>: keys match without regard to case (no other rune folds to
  a letter of theirs), a later member overrides an earlier one, \<open>null\<close> leaves a field as it
  is, unknown members are skipped, and a member of the wrong type is an error.
\<close>

primrec string_field :: "string \<Rightarrow> string \<Rightarrow> (string \<times> jvalue) list \<Rightarrow> string option" where
  "string_field name old [] = Some old"
| "string_field name old (kv # ms) =
     (if equal_fold (fst kv) name then
        (case snd kv of
           VString s \<Rightarrow> string_field name s ms
         | VNull \<Rightarrow> string_field name old ms
         | _ \<Rightarrow> None)
      else string_field name old ms)"

definition decode_url_request :: "jvalue \<Rightarrow> urlRequest option" where
  "decode_url_request v =
     (case v of
        VNull \<Rightarrow> Some \<lparr>ur_URL = [], ur_Language = []\<rparr>
      | VObject ms \<Rightarrow>
          (case (string_field ''url'' [] ms, string_field ''language'' [] ms) of
             (Some u, Some l) \<Rightarrow> Some \<lparr>ur_URL = u, ur_Language = l\<rparr>
           | _ \<Rightarrow> None)
      | _ \<Rightarrow> None)"

definition url_body :: "http_request \<Rightarrow> urlRequest option" where
  "url_body r =
     (case decode_value (max_bytes (2 ^ 20) (received (hr_body r))) of
        None \<Rightarrow> None
      | Some v \<Rightarrow> decode_url_request v)"

definition handleURL ::
  "server \<Rightarrow> (string \<Rightarrow> url option) \<Rightarrow> string prog \<Rightarrow> http_request \<Rightarrow> http_response prog" where
  "handleURL s url_parse newID r =
     (case url_body r of
        None \<Rightarrow> Ret (writeError 400 ''invalid JSON body'')
      | Some req \<Rightarrow>
          if ur_URL req = [] then Ret (writeError 400 ''missing required 'url' field'')
          else if \<not> isHTTPURL url_parse (ur_URL req) then
            Ret (writeError 400 ''url must be an absolute http(s) URL'')
          else
            let language = firstNonEmpty [ur_Language req, cfg_DefaultLanguage (srv_cfg s)] in
            bind newID (\<lambda>jid.
            bind (newQueuedJob jid SourceURL (ur_URL req) language) (\<lambda>j.
            bind (CreateAndEnqueue (srv_store s) j) (\<lambda>res.
              case res of
                Some err \<Rightarrow> Ret (handleEnqueueError err)
              | None \<Rightarrow> Ret (accepted jid)))))"

definition handleGetJob :: "string \<Rightarrow> http_request \<Rightarrow> http_response prog" where
  "handleGetJob jid r =
     bind (Get jid) (\<lambda>res.
       case res of
         Inl err \<Rightarrow>
           if errors_is err ErrNotFound then Ret (writeError 404 ''job not found or expired'')
           else Ret (writeError 500 ''internal error'')
       | Inr j \<Rightarrow> Ret (writeJSON 200 (JObj (jobView j))))"

section \<open>Routing\<close>

definition gatewayPrefix :: "string list" where
  "gatewayPrefix = [''v1'', ''audio'', ''transcriptions'']"

datatype endpoint = Health | Upload | Url | GetJob

datatype segment = Lit string | Wild

text \<open>The patterns registered with the mux, in the order of the source.\<close>

definition routes :: "(string \<times> segment list \<times> endpoint) list" where
  "routes =
     [(''GET'', [Lit ''health''], Health),
      (''POST'', [Lit ''transcribe''], Upload),
      (''POST'', [Lit ''transcribe'', Lit ''url''], Url),
      (''GET'', [Lit ''jobs'', Wild], GetJob),
      (''POST'', map Lit gatewayPrefix, Upload),
      (''POST'', map Lit gatewayPrefix @ [Lit ''url''], Url),
      (''GET'', map Lit gatewayPrefix @ [Lit ''jobs'', Wild], GetJob)]"

text \<open>
  \<open>http.ServeMux\<close>: a wildcard matches one non-empty segment, a GET pattern also matches
  HEAD, a path that only other methods match is answered 405 with the methods it has, any
  other 404.
\<close>

fun match_path :: "segment list \<Rightarrow> string list \<Rightarrow> string list option" where
  "match_path [] [] = Some []"
| "match_path (Lit s # ps) (x # xs) = (if s = x then match_path ps xs else None)"
| "match_path (Wild # ps) (x # xs) =
     (if x = [] then None else map_option (Cons x) (match_path ps xs))"
| "match_path _ _ = None"

definition match_method :: "string \<Rightarrow> string \<Rightarrow> bool" where
  "match_method pat m \<longleftrightarrow> m = pat \<or> pat = ''GET'' \<and> m = ''HEAD''"

datatype routed = Found endpoint "string list" | MethodNotAllowed "string list" | NotFound

definition route :: "string \<Rightarrow> string list \<Rightarrow> routed" where
  "route m path =
     (let hits = filter (\<lambda>(pm, pat, e). match_path pat path \<noteq> None) routes
      in case filter (\<lambda>(pm, pat, e). match_method pm m) hits of
           (pm, pat, e) # _ \<Rightarrow> Found e (case match_path pat path of None \<Rightarrow> [] | Some vs \<Rightarrow> vs)
         | [] \<Rightarrow>
             if hits = [] then NotFound
             else MethodNotAllowed (filter (\<lambda>a. list_ex (\<lambda>(pm, pat, e). match_method pm a) hits)
                    [''GET'', ''HEAD'', ''POST'']))"

text \<open>\<open>http.Error\<close>, with which the mux answers what it has no handler for.\<close>

definition http_Error :: "string \<Rightarrow> int \<Rightarrow> http_response" where
  "http_Error msg hcode =
     \<lparr>hs_status = hcode,
      hs_headers = [(''Content-Type'', ''text/plain; charset=utf-8''),
        (''X-Content-Type-Options'', ''nosniff'')],
      hs_body = msg @ [CHR 0x0A]\<rparr>"

primrec comma_list :: "string list \<Rightarrow> string" where
  "comma_list [] = []"
| "comma_list (x # xs) = (if xs = [] then x else x @ '', '' @ comma_list xs)"

definition not_allowed :: "string list \<Rightarrow> http_response" where
  "not_allowed ms =
     (let e = http_Error ''Method Not Allowed'' 405
      in e\<lparr>hs_headers := (''Allow'', comma_list ms) # hs_headers e\<rparr>)"

definition path_value :: "string list \<Rightarrow> string" where
  "path_value vs = (case vs of [] \<Rightarrow> [] | v # _ \<Rightarrow> v)"

text \<open>The access log entry: the status and whether credentials were present.\<close>

record log_entry =
  log_method :: string
  log_path :: "string list"
  log_status :: int
  log_hasApiKey :: bool
  log_hasBearer :: bool
  log_userAgent :: string

definition accessLog :: "http_request \<Rightarrow> int \<Rightarrow> log_entry" where
  "accessLog r status =
     \<lparr>log_method = hr_method r, log_path = hr_path r, log_status = status,
      log_hasApiKey = (header r ''X-Api-Key'' \<noteq> []),
      log_hasBearer = has_prefix (map lower (header r ''Authorization'')) ''bearer '',
      log_userAgent = header r ''User-Agent''\<rparr>"

definition dispatch ::
  "server \<Rightarrow> (string \<Rightarrow> url option) \<Rightarrow> string prog \<Rightarrow> http_request
     \<Rightarrow> http_response prog" where
  "dispatch s url_parse newID r =
     (case route (hr_method r) (hr_path r) of
        NotFound \<Rightarrow> Ret (http_Error ''404 page not found'' 404)
      | MethodNotAllowed ms \<Rightarrow> Ret (not_allowed ms)
      | Found Health vs \<Rightarrow> handleHealth s r
      | Found Upload vs \<Rightarrow> auth s (handleUpload s newID) r
      | Found Url vs \<Rightarrow> auth s (handleURL s url_parse newID) r
      | Found GetJob vs \<Rightarrow> auth s (handleGetJob (path_value vs)) r)"

definition Handler ::
  "server \<Rightarrow> (string \<Rightarrow> url option) \<Rightarrow> string prog \<Rightarrow> http_request
     \<Rightarrow> (http_response \<times> log_entry) prog" where
  "Handler s url_parse newID r =
     bind (dispatch s url_parse newID r) (\<lambda>resp.
       Ret (resp, accessLog r (hs_status resp)))"

end
