(* ===== verification/Service.thy ===== *)
theory Service
  imports Server Pool_Facts
begin

text \<open>
  \<open>cmd/server/main.go\<close>: the identifiers of jobs and the wiring of the parts. The
  goroutines and the shutdown sequence are in the theories \<open>System\<close> and \<open>Lifecycle\<close>.
\<close>

text \<open>\<open>hex.EncodeToString\<close>.\<close>

definition hex :: "string \<Rightarrow> string" where
  "hex bs = concat (map (\<lambda>c. [hex_digit (code c div 16), hex_digit (code c mod 16)]) bs)"

text \<open>
  The layout \<open>20060102150405.000000000\<close>, used only when the random source fails.
\<close>

definition time_stamp :: "time \<Rightarrow> string" where
  "time_stamp t =
     (let lt = In t (\<lambda>_. 0);
          (y, m, d) = civil (local_sec lt div 86400)
      in pad 4 y @ pad 2 m @ pad 2 d @ pad 2 (hour_of lt) @ pad 2 (minute_of lt)
         @ pad 2 (second_of lt) @ ''.'' @ pad 9 (nanosecond_of lt))"

definition newJobID :: "string prog" where
  "newJobID = Op (ORand 16) (\<lambda>r.
     case as_bytesE r of
       Inl e \<Rightarrow> Op ONow (\<lambda>t. Ret (hex (time_stamp (as_int t))))
     | Inr b \<Rightarrow> Ret (hex b))"

text \<open>
  \<open>run\<close> up to the start of the two groups of goroutines: the configuration, the store,
  and from them the pool and the server. The error is the one \<open>main\<close> logs before exit.
\<close>

definition startup ::
  "(nat \<Rightarrow> nat \<Rightarrow> nat \<Rightarrow> nat) \<Rightarrow> (string \<Rightarrow> error + location) \<Rightarrow> (string \<Rightarrow> error option)
     \<Rightarrow> (string \<Rightarrow> string) \<Rightarrow> (error + (pool \<times> server)) prog" where
  "startup frac load_location parse_redis_url getenv =
     (case Load frac load_location getenv of
        Inl e \<Rightarrow> Ret (Inl e)
      | Inr cfg \<Rightarrow>
          bind (New_store parse_redis_url (cfg_RedisURL cfg) (cfg_JobTTL cfg) (cfg_QueueSize cfg))
            (\<lambda>res. case res of
               Inl e \<Rightarrow> Ret (Inl e)
             | Inr st \<Rightarrow>
                 let c = New_client (cfg_WhisperUpstreamURL cfg) (cfg_WhisperAPIKey cfg)
                           (cfg_UpstreamTimeout cfg);
                     p = New_pool \<lparr>wc_Store = st, wc_Whisper = c, wc_Concurrency = cfg_MaxConcurrency cfg,
                           wc_MaxAudioBytes = cfg_MaxAudioBytes cfg,
                           wc_DownloadTimeout = cfg_DownloadTimeout cfg,
                           wc_DefaultLanguage = cfg_DefaultLanguage cfg,
                           wc_Window = cfg_WhisperWindow cfg\<rparr>
                 in Ret (Inr (p, New_server cfg st))))"

end
