(* ===== verification/Example_Env.thy ===== *)
theory Example_Env
  imports Service
begin

text \<open>
  A small concrete environment, for the witnesses: Redis holds one queued job, the
  upstream answers every request the same way, and the clock stands still. Its state is
  the hash and the status the upstream answers with.
\<close>

record ex_state =
  ex_hash :: "(string \<times> string) list"
  ex_status :: int
  ex_len :: int
  ex_now :: int

fun ex_env :: "ex_state \<Rightarrow> op \<Rightarrow> reply \<times> ex_state" where
  "ex_env s (OHGetAll k) = (RHashE (Inr (ex_hash s)), s)"
| "ex_env s (OXLen k) = (RIntE (Inr (ex_len s)), s)"
| "ex_env s (OTx cs) = (RErr None, s)"
| "ex_env s (OXReadGroup g c st n b) =
     (RStreamsE (Inr [(st, [\<lparr>x_id = ''1-0'', x_values = [(fieldJobID, ''j'')]\<rparr>])]), s)"
| "ex_env s (OPost req t) =
     (RRespE (Inr \<lparr>resp_status = ex_status s, resp_length = 2, resp_body = [(''{}'', None)]\<rparr>), s)"
| "ex_env s (OGet u t) =
     (RRespE (Inr \<lparr>resp_status = 200, resp_length = 3, resp_body = [(''abc'', None)]\<rparr>), s)"
| "ex_env s (OSleep n) = (RBool True, s)"
| "ex_env s (OTick n) = (RBool True, s)"
| "ex_env s OGate = (RBool True, s)"
| "ex_env s ONow = (RInt (ex_now s), s)"
| "ex_env s OMemStats = (RInt 0, s)"
| "ex_env s (ORand n) = (RBytesE (Inr ''0123456789abcdef''), s)"
| "ex_env s o' = (RErr None, s)"

text \<open>An upstream that is down: every request ends in a 502, in any state.\<close>

fun ex_gateway :: "unit \<Rightarrow> op \<Rightarrow> reply \<times> unit" where
  "ex_gateway s (OPost req t) =
     (RRespE (Inr \<lparr>resp_status = 502, resp_length = 0, resp_body = []\<rparr>), s)"
| "ex_gateway s (OSleep n) = (RBool True, s)"
| "ex_gateway s OGate = (RBool True, s)"
| "ex_gateway s (OReadSlice d) = (RBytes [], s)"
| "ex_gateway s o' = (RErr None, s)"

definition upload_hash :: "(string \<times> string) list" where
  "upload_hash = [(''status'', ''queued''), (''source'', ''upload''), (''url'', ''''),
     (''language'', ''pt''), (''createdAt'', ''t'')]"

definition ex_window :: window where
  "ex_window = \<lparr>enabled = True, startMin = 540, endMin = 1020, loc = (\<lambda>_. 0)\<rparr>"

definition ex_pool :: pool where
  "ex_pool = \<lparr>pool_store = \<lparr>jobTTL = Hour, queueSize = 5\<rparr>,
     pool_whisper = \<lparr>baseURL = ''u'', apiKey = ''k'', http_timeout = Minute\<rparr>,
     concurrency = 2, maxAudioBytes = 10, downloadTimeout = Minute, defaultLanguage = ''pt'',
     pool_window = ex_window\<rparr>"

definition ex_message :: queued_message where
  "ex_message = \<lparr>MessageID = ''1-0'', JobID = ''j''\<rparr>"

text \<open>A world whose store holds the audio of the job \<open>j\<close>.\<close>

definition ex_mem :: audio_mem where
  "ex_mem = Put ''j'' 0 (snd (alloc_clip \<lparr>Filename = ''a.wav'', Data = Some 0\<rparr>
     (snd (alloc_buf ''RIFF'' NewStore))))"

definition ex_world :: "int \<Rightarrow> ex_state world" where
  "ex_world status = (init_world \<lparr>ex_hash = upload_hash, ex_status = status, ex_len = 0,
     ex_now = 0\<rparr>)\<lparr>mem := ex_mem\<rparr>"

lemmas ex_defs = upload_hash_def ex_window_def ex_pool_def ex_message_def ex_mem_def ex_world_def
  init_world_def

text \<open>The rules that run the worker on a concrete world.\<close>

lemmas handle_unfold = handle_def handle_body_def handle_job_def handle_result_def fail_def ack_def
  nowRFC3339_def fetchAudio_def transcribeWithRetry_def transcribe_loop_0 attempt_call_def
  Transcribe_def response_result_def store_defs

lemmas run_unfold = run_simps world_simps Let_def

lemmas ex_run = ex_defs NewStore_def job_of_hash_def status_defs source_defs clip_of_def
  alloc_buf_def alloc_clip_def Put_def Take_def

end
