(* ===== verification/Worker_Properties.thy ===== *)
theory Worker_Properties
  imports Pool_Facts Example_Env
begin

text \<open>
  The properties of the worker: what a message makes it do, in any environment, and what
  it leaves behind.
\<close>

section \<open>The life of a message\<close>




text \<open>\<open>handle\<close> leaves the in-flight counter and the whisper gate as it found them, on
  every path.\<close>

lemma handle_restores_counters:
  "in_flight (final (run (step_op E) (handle up p m) w)) = in_flight w
    \<and> gate (final (run (step_op E) (handle up p m) w)) = gate w"
  using same_counters_handle [of w E up p m] by (simp add: same_counters_def)

lemma posted_mono: "posted c f l body xs \<Longrightarrow> set xs \<subseteq> set ys \<Longrightarrow> posted c f l body ys"
  unfolding posted_def by blast

lemma handle_job_stores:
  assumes "o' \<in> set (ops (run X (handle_job up p m j) w))" and "stores s jid body o'"
  shows "\<exists>f. posted (pool_whisper p) f (job_language p j) body (events (run X (handle_job up p m j) w))"
proof -
  define l where "l = job_language p j"
  let ?w = "final (run X (update_job (pool_store p) (JobID m) processing_fields) w)"
  let ?f = "run X (fetchAudio up p (JobID m) j) ?w"
  have e: "events (run X (handle_job up p m j) w) =
      events (run X (update_job (pool_store p) (JobID m) processing_fields) w) @ events ?f @
      events (run X (case result ?f of Inl e \<Rightarrow> fail p m (ErrWrap ''fetch audio: '' e)
        | Inr (fn, d) \<Rightarrow> bind (transcribeWithRetry p fn d l) (handle_result p m d)) (final ?f))"
    unfolding handle_job_def SetProcessing_def Let_def job_language_def [symmetric] l_def [symmetric] by (simp add: run_simps)
  have "ops (run X (handle_job up p m j) w) =
      ops (run X (update_job (pool_store p) (JobID m) processing_fields) w) @ ops ?f @
      ops (run X (case result ?f of Inl e \<Rightarrow> fail p m (ErrWrap ''fetch audio: '' e)
        | Inr (fn, d) \<Rightarrow> bind (transcribeWithRetry p fn d l) (handle_result p m d)) (final ?f))"
    unfolding handle_job_def SetProcessing_def Let_def job_language_def [symmetric] l_def [symmetric] by (simp add: ops_bind)
  with assms have "o' \<in> set (ops (run X (case result ?f of
        Inl e \<Rightarrow> fail p m (ErrWrap ''fetch audio: '' e)
        | Inr (fn, d) \<Rightarrow> bind (transcribeWithRetry p fn d l) (handle_result p m d)) (final ?f)))"
    by (auto simp: run_store_simps dest: fetch_not_stores)
  with assms(2) obtain fn d where r: "result ?f = Inr (fn, d)"
    and o: "o' \<in> set (ops (run X (bind (transcribeWithRetry p fn d l) (handle_result p m d)) (final ?f)))"
    by (auto dest: fail_not_stores split: sum.splits)
  let ?t = "run X (transcribeWithRetry p fn d l) (final ?f)"
  from o assms(2) have "result ?t = Inr body"
    by (auto simp: run_simps dest: fetch_not_stores result_stores)
  then have "posted (pool_whisper p) fn l body (events ?t)"
    unfolding transcribeWithRetry_def by (rule loop_posted)
  then have "posted (pool_whisper p) fn l body (events (run X (handle_job up p m j) w))"
    by (simp add: e r run_simps posted_append)
  then show ?thesis unfolding l_def by blast
qed

text \<open>C15: A result is stored only if it is, byte for byte, the body of a 200 response to a
  POST of this worker to the upstream, carrying the client's key and the job's language.\<close>

theorem stored_result_verbatim:
  assumes "OTx (update_cmds s jid (completed_fields body at))
      \<in> set (ops (run X (handle up p m) w))"
  shows "\<exists>j f. result (run X (Get (JobID m)) (snd (X w (OInFlight 1)))) = Inr j
    \<and> posted (pool_whisper p) f (job_language p j) body (events (run X (handle up p m) w))"
proof -
  let ?o = "OTx (update_cmds s jid (completed_fields body at))"
  let ?w = "snd (X w (OInFlight 1))"
  have st: "stores s jid body ?o" by (auto simp: stores_def)
  have body: "?o \<in> set (ops (run X (handle_body up p m) ?w))"
    using assms by (simp add: handle_def run_simps)
  then obtain j where j: "result (run X (Get (JobID m)) ?w) = Inr j"
      "\<not> (job_Status j = StatusCompleted \<or> job_Status j = StatusFailed)"
    using st
    by (cases "result (run X (Get (JobID m)) ?w)")
      (auto simp: handle_body_def run_simps run_store_simps ops_ack ack_cmds_def update_cmds_def
        split: if_splits)
  with body have "?o \<in> set (ops (run X (handle_job up p m j) (final (run X (Get (JobID m)) ?w))))"
    by (auto simp: handle_body_def run_simps run_store_simps)
  from handle_job_stores [OF this st] obtain f where "posted (pool_whisper p) f (job_language p j) body
      (events (run X (handle_job up p m j) (final (run X (Get (JobID m)) ?w))))" by blast
  moreover have "set (events (run X (handle_job up p m j) (final (run X (Get (JobID m)) ?w))))
      \<subseteq> set (events (run X (handle up p m) w))"
    using j by (auto simp: handle_def handle_body_def run_simps)
  ultimately show ?thesis using j(1) by (blast intro: posted_mono)
qed

theorem stored_result_verbatim_witness:
  "\<exists>f l. posted (pool_whisper ex_pool) f l ''{}''
     (events (run (step_op ex_env) (handle (\<lambda>_. None) ex_pool ex_message) (ex_world 200)))"
proof -
  have "OTx (update_cmds (pool_store ex_pool) ''j'' (completed_fields ''{}'' (rfc3339 0)))
      \<in> set (ops (run (step_op ex_env) (handle (\<lambda>_. None) ex_pool ex_message) (ex_world 200)))"
    by (simp add: handle_unfold run_unfold ex_run)
  from stored_result_verbatim [OF this] show ?thesis by blast
qed

section \<open>Retries\<close>

text \<open>C26: \<open>transcribeWithRetry\<close> sends at most three requests upstream, and pauses before the
  second and the third only: its pauses are a prefix of 1s, 2s, and it sends at most one
  request more than it pauses.\<close>

theorem retries_bounded:
  "\<exists>k \<le> maxRetries. filter sleep_op (ops (run X (transcribeWithRetry p f d l) w))
       = take k [OSleep Second, OSleep (2 * Second)]
     \<and> length (filter post_op (ops (run X (transcribeWithRetry p f d l) w))) \<le> Suc k"
  using retry_counts [of X p f d l w] by (simp add: sleeps_def posts_def)

theorem retries_bounded_witness:
  "length (filter post_op (ops (run (step_op ex_env) (transcribeWithRetry ex_pool ''a'' (Some 0) ''pt'')
     (ex_world 503)))) = 3"
proof -
  obtain k where "k \<le> maxRetries" "length (filter post_op (ops (run (step_op ex_env)
      (transcribeWithRetry ex_pool ''a'' (Some 0) ''pt'') (ex_world 503)))) \<le> Suc k"
    using retries_bounded [of "step_op ex_env" ex_pool "''a''" "Some 0" "''pt''" "ex_world 503"]
    by blast
  then have "length (filter post_op (ops (run (step_op ex_env)
      (transcribeWithRetry ex_pool ''a'' (Some 0) ''pt'') (ex_world 503)))) \<le> 3"
    by (simp add: maxRetries_def)
  moreover have "length (filter post_op (ops (run (step_op ex_env)
      (transcribeWithRetry ex_pool ''a'' (Some 0) ''pt'') (ex_world 503)))) \<ge> 3"
    by (simp add: handle_unfold loop_unroll maxRetries_def run_unfold ex_run)
  ultimately show ?thesis by simp
qed

text \<open>A permanent failure is final: if the first call fails with an error that is not
  transient, \<open>transcribeWithRetry\<close> does exactly that call and returns its error.\<close>

lemma permanent_not_retried:
  assumes "result (run X (Transcribe (pool_whisper p) f d l) w) = Inl e" and "\<not> IsTransient e"
  shows "run X (transcribeWithRetry p f d l) w = run X (Transcribe (pool_whisper p) f d l) w"
proof -
  obtain w' es where "run X (Transcribe (pool_whisper p) f d l) w = (Inl e, w', es)"
    using assms(1) by (cases "run X (Transcribe (pool_whisper p) f d l) w") auto
  with assms(2) show ?thesis
    by (simp add: transcribeWithRetry_def transcribe_loop_0 attempt_call_def run_bind run.simps)
qed

lemma permanent_not_retried_witness:
  "ops (run (step_op ex_env) (transcribeWithRetry ex_pool ''a'' (Some 0) ''pt'') (ex_world 422)) =
     ops (run (step_op ex_env) (Transcribe (pool_whisper ex_pool) ''a'' (Some 0) ''pt'') (ex_world 422))"
proof -
  have r: "result (run (step_op ex_env) (Transcribe (pool_whisper ex_pool) ''a'' (Some 0) ''pt'')
      (ex_world 422)) = Inl (upstreamErr 422 ''{}'')"
    by (simp add: handle_unfold run_unfold ex_run)
  have "\<not> IsTransient (upstreamErr 422 ''{}'')" by (simp add: upstreamErr_def Let_def)
  from permanent_not_retried [OF r this] show ?thesis by simp
qed

lemma show_int_2: "show_int 2 = ''2''"
proof -
  have "char_of (50 :: nat) = CHR ''2''" by (simp add: char_of_eq_iff)
  then show ?thesis by (simp add: show_int_def digits10.simps)
qed

lemma exhaust:
  assumes "\<And>w. \<exists>e. result (run X (Transcribe (pool_whisper p) f d l) w) = Inl e \<and> IsTransient e"
    and "\<And>w n. as_bool (fst (X w (OSleep n)))"
    and "n \<le> maxRetries"
  shows "\<exists>e. IsTransient e \<and> result (run X (attempt_call p f d l n) w)
      = Inl (ErrWrap (''transcription failed after '' @ show_int (int maxRetries) @ '' retries: '') e)
    \<and> sleeps (ops (run X (attempt_call p f d l n) w))
      = map (\<lambda>k. OSleep (retryBaseDelay * 2 ^ k)) [n..<maxRetries]"
  using assms(3)
proof (induction n arbitrary: w rule: inc_induct)
  case base
  from assms(1) [of w] show ?case
    by (auto simp: attempt_call_def run_simps transcribe_loop_end Transcribe_counts)
next
  case (step n)
  obtain e where e: "result (run X (Transcribe (pool_whisper p) f d l) w) = Inl e" "IsTransient e"
    using assms(1) by blast
  let ?w = "final (run X (Transcribe (pool_whisper p) f d l) w)"
  from step.IH [of "snd (X ?w (OSleep (retryBaseDelay * 2 ^ n)))"] e step.hyps assms(2) show ?case
    by (auto simp: attempt_call_def [of p f d l n] run_simps transcribe_loop_Suc Transcribe_counts
        upt_conv_Cons)
qed

text \<open>A transient failure is retried until the retries are used up: if every call fails
  transiently and no pause is cut short, the worker pauses 1s and then 2s, and returns the
  last error under the message of the exhausted retries.\<close>

lemma transient_exhausts_retries:
  assumes "\<And>w. \<exists>e. result (run X (Transcribe (pool_whisper p) f d l) w) = Inl e \<and> IsTransient e"
    and "\<And>w n. as_bool (fst (X w (OSleep n)))"
  shows "filter sleep_op (ops (run X (transcribeWithRetry p f d l) w))
      = [OSleep Second, OSleep (2 * Second)]
    \<and> (\<exists>e. IsTransient e \<and> result (run X (transcribeWithRetry p f d l) w)
         = Inl (ErrWrap ''transcription failed after 2 retries: '' e))"
proof -
  have "show_int (int maxRetries) = ''2''"
    by (simp add: maxRetries_def show_int_2)
  with exhaust [OF assms, of 0] show ?thesis
    by (auto simp: transcribeWithRetry_def transcribe_loop_0 sleeps_def [symmetric] maxRetries_def
        retryBaseDelay_def upt_rec mult.commute)
qed

lemma transient_exhausts_retries_witness:
  "filter sleep_op (ops (run ex_gateway (transcribeWithRetry ex_pool ''a'' None ''pt'') ()))
     = [OSleep Second, OSleep (2 * Second)]"
proof -
  have "\<exists>e. result (run ex_gateway (Transcribe (pool_whisper ex_pool) ''a'' None ''pt'') w) = Inl e
      \<and> IsTransient e" for w
    by (simp add: Transcribe_def run_simps response_result_def)
  moreover have "as_bool (fst (ex_gateway w (OSleep n)))" for w n by simp
  ultimately show ?thesis
    using transient_exhausts_retries [of ex_gateway ex_pool "''a''" None "''pt''" "()"] by blast
qed

section \<open>The upstream call\<close>

text \<open>The replies of the upstream that a retry may improve.\<close>

definition retryable_reply :: "reply \<Rightarrow> bool" where
  "retryable_reply r =
     (case as_respE r of
        Inl _ \<Rightarrow> True
      | Inr resp \<Rightarrow>
          (case read_all [] (resp_body resp) of Inl _ \<Rightarrow> True | Inr _ \<Rightarrow> resp_status resp \<ge> 500))"

text \<open>An error of \<open>Transcribe\<close> is transient exactly when the call got as far as the gate
  and no reply of the upstream rules a retry out: the gate was given up to the context, the
  request failed, the body could not be read, or the status was at least 500. A request
  that cannot be built and any other status than 200 below 500 are permanent. (The error
  type is private to the package, so the library's error for a bad request is not one.)\<close>

lemma Transcribe_classifies:
  fixes X c f d l w
  defines "z \<equiv> run X (Transcribe c f d l) w"
  assumes "result z = Inl e"
    and "\<forall>m u r e'. (ONewRequest m u, r) \<in> set (events z) \<and> as_err r = Some e' \<longrightarrow> \<not> IsTransient e'"
  shows "IsTransient e \<longleftrightarrow> (\<exists>g. (OGate, g) \<in> set (events z))
    \<and> (\<forall>req t r. (OPost req t, r) \<in> set (events z) \<longrightarrow> retryable_reply r)"
  using assms
  by (auto simp: z_def Transcribe_def run_simps retryable_reply_def response_result_transient
      split: option.splits if_splits)

lemma Transcribe_classifies_witness:
  "IsTransient (upstreamErr 422 ''{}'') = False \<and>
   (\<exists>e. result (run ex_gateway (Transcribe (pool_whisper ex_pool) ''a'' None ''pt'') ()) = Inl e
      \<and> IsTransient e)"
proof -
  let ?z = "run ex_gateway (Transcribe (pool_whisper ex_pool) ''a'' None ''pt'') ()"
  obtain e where e: "result ?z = Inl e"
    by (simp add: Transcribe_def run_simps response_result_def)
  moreover have "(\<exists>g. (OGate, g) \<in> set (events ?z))
    \<and> (\<forall>req t r. (OPost req t, r) \<in> set (events ?z) \<longrightarrow> retryable_reply r)"
    by (auto simp: Transcribe_def run_simps retryable_reply_def)
  moreover have "\<forall>m u r e'. (ONewRequest m u, r) \<in> set (events ?z) \<and> as_err r = Some e'
      \<longrightarrow> \<not> IsTransient e'"
    by (auto simp: Transcribe_def run_simps)
  ultimately have "IsTransient e"
    using Transcribe_classifies [of ex_gateway "pool_whisper ex_pool" "''a''" None "''pt''" "()" e]
    by blast
  with e show ?thesis by (simp add: upstreamErr_def Let_def)
qed

section \<open>The consumers\<close>

lemma handle_all_redis:
  "\<exists>ocs. length ocs = length ms \<and> filter redis_op (ops (run X (handle_all up p ms) w))
     = concat (map2 (outcome_ops p) ms ocs)"
proof (induction ms arbitrary: w)
  case (Cons m ms)
  from handle_redis [of X up p m w] obtain oc
    where "filter redis_op (ops (run X (handle up p m) w)) = outcome_ops p m oc" by blast
  moreover from Cons [of "final (run X (handle up p m) w)"] obtain ocs where
    "length ocs = length ms" "filter redis_op (ops (run X (handle_all up p ms)
       (final (run X (handle up p m) w)))) = concat (map2 (outcome_ops p) ms ocs)" by blast
  ultimately show ?case by (intro exI [of _ "oc # ocs"]) (simp add: run_simps)
qed (simp add: run_simps)

text \<open>A consumer that finds its context live and the window open reads at most one
  message with a blocking read, and carries every message it got to its outcome and ack,
  in the order Redis delivered them; a failed read costs one pause and no message.\<close>

lemma consume_turn_open:
  assumes "as_err (fst (X w OCtxErr)) = None"
    and "IsOpen (pool_window p) (as_int (fst (X (snd (X w OCtxErr)) ONow)))"
  shows "\<exists>ms ocs. length ocs = length ms
    \<and> filter redis_op (ops (run X (consume_iter up p c closed) w))
       = OXReadGroup groupName c streamKey 1 readBlock # concat (map2 (outcome_ops p) ms ocs)
    \<and> (result (run X (Read c 1 readBlock) (snd (X (snd (X w OCtxErr)) ONow))) = Inr ms
       \<or> (\<exists>e. result (run X (Read c 1 readBlock) (snd (X (snd (X w OCtxErr)) ONow))) = Inl e
          \<and> ms = []))"
proof -
  let ?w = "snd (X (snd (X w OCtxErr)) ONow)"
  have rd: "ops (run X (Read c 1 readBlock) ?w) = [OXReadGroup groupName c streamKey 1 readBlock]"
    by (simp add: Read_def run_simps split: sum.split)
  show ?thesis
  proof (cases "result (run X (Read c 1 readBlock) ?w)")
    case (Inl e)
    then show ?thesis using assms rd
      by (intro exI [of _ "[]"]) (auto simp: consume_iter_def run_simps)
  next
    case (Inr ms)
    from handle_all_redis [of ms X up p "final (run X (Read c 1 readBlock) ?w)"]
    obtain ocs where "length ocs = length ms" "filter redis_op (ops (run X (handle_all up p ms)
        (final (run X (Read c 1 readBlock) ?w)))) = concat (map2 (outcome_ops p) ms ocs)" by blast
    with Inr show ?thesis using assms rd
      by (intro exI [of _ ms] exI [of _ ocs]) (simp add: consume_iter_def run_simps)
  qed
qed

lemma consume_turn_open_witness:
  "\<exists>oc. filter redis_op (ops (run (step_op ex_env) (consume_iter (\<lambda>_. None)
      (ex_pool\<lparr>pool_window := zero_window\<rparr>) ''worker-0'' False) (ex_world 200)))
     = OXReadGroup groupName ''worker-0'' streamKey 1 readBlock
       # outcome_ops (ex_pool\<lparr>pool_window := zero_window\<rparr>) ex_message oc"
proof -
  let ?X = "step_op ex_env" and ?p = "ex_pool\<lparr>pool_window := zero_window\<rparr>"
  let ?w = "snd (?X (snd (?X (ex_world 200) OCtxErr)) ONow)"
  have r: "result (run ?X (Read ''worker-0'' 1 readBlock) ?w) = Inr [ex_message]"
    by (simp add: Read_def run_unfold toXMessages_def ex_message_def)
  have h: "as_err (fst (?X (ex_world 200) OCtxErr)) = None"
    "IsOpen (pool_window ?p) (as_int (fst (?X (snd (?X (ex_world 200) OCtxErr)) ONow)))"
    by (simp_all add: run_unfold IsOpen_def zero_window_def)
  from consume_turn_open [OF h, of "\<lambda>_. None" "''worker-0''" False] r show ?thesis
    by (auto simp: length_Suc_conv)
qed

text \<open>C34: While the clock is outside the window, a goroutine of the pool does nothing but
  look at its context and the clock, wait for its ticker, and sleep: it reads no message,
  reclaims none, fetches no audio and sends nothing upstream.\<close>

theorem closed_window_idle:
  fixes X up p g closed w
  defines "z \<equiv> run X (goroutine_iter up p g closed) w"
  assumes "\<forall>r. (ONow, r) \<in> set (events z) \<longrightarrow> \<not> IsOpen (pool_window p) (as_int r)"
  shows "set (ops z) \<subseteq> {OCtxErr, ONow, OTick claimInterval} \<union> range OSleep"
proof (cases g)
  case (Consumer c)
  let ?w = "snd (X w OCtxErr)"
  show ?thesis
  proof (cases "as_err (fst (X w OCtxErr)) = None")
    case True
    then have "(ONow, fst (X ?w ONow)) \<in> set (events z)"
      by (simp add: z_def Consumer goroutine_iter_def consume_iter_def run_simps)
    with assms(2) have "\<not> IsOpen (pool_window p) (as_int (fst (X ?w ONow)))" by blast
    with True show ?thesis
      by (simp add: z_def Consumer goroutine_iter_def consume_iter_def run_simps)
  qed (simp add: z_def Consumer goroutine_iter_def consume_iter_def run_simps)
next
  case (Claimer c)
  let ?w = "snd (X w (OTick claimInterval))"
  show ?thesis
  proof (cases "as_bool (fst (X w (OTick claimInterval)))")
    case True
    then have "(ONow, fst (X ?w ONow)) \<in> set (events z)"
      by (simp add: z_def Claimer goroutine_iter_def claim_iter_def run_simps)
    with assms(2) have "\<not> IsOpen (pool_window p) (as_int (fst (X ?w ONow)))" by blast
    with True show ?thesis
      by (simp add: z_def Claimer goroutine_iter_def claim_iter_def run_simps)
  qed (simp add: z_def Claimer goroutine_iter_def claim_iter_def run_simps)
qed

lemma ex_window_facts: "window_ok ex_window" "\<not> IsOpen ex_window 0"
  by (simp_all add: window_ok_def ex_window_def IsOpen_def Let_def In_def minuteOfDay_def hour_of_def
      minute_of_def local_sec_def)

theorem closed_window_idle_witness:
  "set (ops (run (step_op ex_env) (goroutine_iter (\<lambda>_. None) ex_pool (Consumer ''worker-0'') False)
     (ex_world 200))) \<subseteq> {OCtxErr, ONow, OTick claimInterval} \<union> range OSleep"
proof (rule closed_window_idle)
  have "pool_window ex_pool = ex_window" by (simp add: ex_pool_def)
  with ex_window_facts(2) show "\<forall>r. (ONow, r) \<in> set (events (run (step_op ex_env)
      (goroutine_iter (\<lambda>_. None) ex_pool (Consumer ''worker-0'') False) (ex_world 200)))
    \<longrightarrow> \<not> IsOpen (pool_window ex_pool) (as_int r)"
    by (simp add: goroutine_iter_def consume_iter_def run_unfold ex_world_def init_world_def)
qed

text \<open>A goroutine leaves its loop only when its context is done: a consumer returns only
  after the context reported an error or cut a pause short, the claimer only when the
  select took the context's case. No error of Redis, of a download or of the upstream ends it.\<close>

lemma goroutine_returns_only_on_cancel:
  assumes "result (run X (goroutine_iter up p g closed) w) = Return"
  shows "\<exists>(o', r) \<in> set (events (run X (goroutine_iter up p g closed) w)).
    (o' = OCtxErr \<and> as_err r \<noteq> None) \<or> (sleep_op o' \<and> \<not> as_bool r)
    \<or> (o' = OTick claimInterval \<and> \<not> as_bool r)"
  using assms
  by (cases g) (force simp: goroutine_iter_def consume_iter_def claim_iter_def run_simps
      split: if_splits sum.splits)+

lemma goroutine_returns_only_on_cancel_witness:
  "\<exists>(o', r) \<in> set (events (run (\<lambda>(w::unit) o'. (RErr (Some CtxCanceled), w))
      (goroutine_iter (\<lambda>_. None) ex_pool (Consumer ''worker-0'') False) ())).
    (o' = OCtxErr \<and> as_err r \<noteq> None) \<or> (sleep_op o' \<and> \<not> as_bool r)
    \<or> (o' = OTick claimInterval \<and> \<not> as_bool r)"
  by (rule goroutine_returns_only_on_cancel)
    (simp add: goroutine_iter_def consume_iter_def run_simps)

text \<open>A paused consumer wakes up at most one minute later and never after the opening:
  while the window is closed \<open>windowSleep\<close> is positive, at most \<open>windowPoll\<close>, and every
  instant it sleeps through is outside the window (for a zone whose offset is constant over
  the next day).\<close>

lemma windowSleep_never_oversleeps:
  fixes p t
  defines "win \<equiv> pool_window p"
  assumes "window_ok win" and "\<not> IsOpen win t"
    and "\<forall>u. t \<le> u \<and> u \<le> t + 24 * Hour \<longrightarrow> loc win (u div 10 ^ 9) = loc win (t div 10 ^ 9)"
  shows "0 < windowSleep p t \<and> windowSleep p t \<le> windowPoll
    \<and> (\<forall>s. 0 \<le> s \<and> s < windowSleep p t \<longrightarrow> \<not> IsOpen win (t + s))"
proof -
  have "windowSleep p t = min windowPoll (NextOpen win t)"
    using NextOpen_closed(2) [OF assms(2,3)]
    by (simp add: windowSleep_def win_def [symmetric] Let_def min_def windowPoll_def Minute_def)
  moreover have "0 < windowPoll" by (simp add: windowPoll_def Minute_def)
  ultimately show ?thesis
    using NextOpen_first_open [OF assms(2-4)] NextOpen_closed(2) [OF assms(2,3)] by auto
qed

lemma windowSleep_never_oversleeps_witness:
  "0 < windowSleep ex_pool 0 \<and> \<not> IsOpen ex_window (windowSleep ex_pool 0 - 1)"
proof -
  have p: "pool_window ex_pool = ex_window" by (simp add: ex_pool_def)
  have c: "\<forall>u. 0 \<le> u \<and> u \<le> 0 + 24 * Hour
      \<longrightarrow> loc ex_window (u div 10 ^ 9) = loc ex_window (0 div 10 ^ 9)"
    by (simp add: ex_window_def)
  note * = windowSleep_never_oversleeps [of ex_pool 0, unfolded p, OF ex_window_facts c]
  from * [THEN conjunct2, THEN conjunct2, rule_format, of "windowSleep ex_pool 0 - 1"] *
  show ?thesis by simp
qed

section \<open>Downloads\<close>

text \<open>A download that succeeds delivers the whole body of a 200 response, and no more
  than the limit: no audio is silently cut off (for limits below the largest 64-bit integer).\<close>

lemma download_bounded_complete:
  assumes "download_result up url maxBytes r = Inr (name, data)"
    and "0 \<le> maxBytes" and "maxBytes < max_int64"
  shows "int (length data) \<le> maxBytes
    \<and> (\<exists>resp. r = Inr resp \<and> resp_status resp = 200 \<and> data = body_bytes (resp_body resp))"
proof -
  from assms(1) obtain resp where r: "r = Inr resp" "resp_status resp = 200"
    by (auto simp: download_result_def split: sum.splits if_splits)
  with assms show ?thesis
    using download_result_bound [OF assms(1)] download_result_complete by blast
qed

definition ex_response :: "int \<Rightarrow> string \<Rightarrow> response" where
  "ex_response n bs = \<lparr>resp_status = 200, resp_length = n, resp_body = [(bs, None)]\<rparr>"

lemma download_bounded_complete_witness:
  "\<exists>name. download_result (\<lambda>_. None) ''u'' 3 (Inr (ex_response (- 1) ''abc'')) = Inr (name, ''abc'')
    \<and> int (length ''abc'') \<le> 3"
proof -
  have "s64 4 = 4" by (rule s64_id) (simp add: int64_def min_int64_def max_int64_def)
  then have d: "download_result (\<lambda>_. None) ''u'' 3 (Inr (ex_response (- 1) ''abc'')) = Inr (''audio'', ''abc'')"
    by (simp add: download_result_def ex_response_def filenameFromURL_def)
  have "int (length ''abc'') \<le> 3"
    using download_bounded_complete [OF d] by (simp add: max_int64_def)
  with d show ?thesis by blast
qed

lemma read_limited_ok:
  "\<forall>(b, e) \<in> set rs. e = None \<or> e = Some IoEOF \<Longrightarrow> \<exists>bs. read_all acc (limit_reads n rs) = Inr bs"
  by (induction acc rs arbitrary: n rule: read_all.induct) auto

text \<open>A body longer than the limit is refused, also when \<open>Content-Length\<close> is absent or
  lies: if no read fails, the error is \<open>errTooLarge\<close> with the limit.\<close>

lemma download_refuses_too_large:
  assumes "resp_status resp = 200" and "\<forall>(b, e) \<in> set (resp_body resp). e = None \<or> e = Some IoEOF"
    and "0 \<le> maxBytes" and "maxBytes < max_int64"
    and "maxBytes < int (length (body_bytes (resp_body resp)))"
  shows "download_result up url maxBytes (Inr resp) = Inl (ErrTooLarge maxBytes)"
proof -
  have s: "s64 (maxBytes + 1) = maxBytes + 1"
    using assms(3,4) by (intro s64_id) (simp add: int64_def min_int64_def max_int64_def)
  obtain bs where bs: "read_all [] (limit_reads (maxBytes + 1) (resp_body resp)) = Inr bs"
    using read_limited_ok [OF assms(2)] by blast
  have "maxBytes + 1 \<le> int (length (body_bytes (resp_body resp)))" using assms(5) by simp
  from limited_bytes_prefix [OF this _ bs] assms(3)
  have "bs = take (nat (maxBytes + 1)) (body_bytes (resp_body resp))" by simp
  then have "int (length bs) > maxBytes" using assms(3,5) by simp
  with bs s assms(1) show ?thesis by (simp add: download_result_def)
qed

lemma download_refuses_too_large_witness:
  "download_result (\<lambda>_. None) ''u'' 2 (Inr (ex_response (- 1) ''abc'')) = Inl (ErrTooLarge 2)"
  by (rule download_refuses_too_large) (simp_all add: ex_response_def max_int64_def)

text \<open>C37: The bound of C13 is needed: with \<open>MAX_AUDIO_BYTES\<close> at the largest 64-bit integer,
  \<open>maxBytes+1\<close> wraps around, nothing is read, and every 200 response is delivered as
  empty audio.\<close>

theorem download_limit_overflow:
  assumes "resp_status resp = 200" and "int64 (resp_length resp)"
  shows "download_result up url max_int64 (Inr resp) = Inr (filenameFromURL up url, [])"
proof -
  have "limit_reads min_int64 rs = []" for rs
    by (cases rs) (auto simp: min_int64_def)
  with assms show ?thesis
    by (simp add: download_result_def s64_overflow int64_def) (simp add: max_int64_def)
qed

theorem download_limit_overflow_witness:
  "download_result (\<lambda>_. None) ''u'' max_int64 (Inr (ex_response 3 ''abc'')) = Inr (''audio'', [])"
  using download_limit_overflow [of "ex_response 3 ''abc''" "\<lambda>_. None" "''u''"]
  by (simp add: ex_response_def int64_def min_int64_def max_int64_def filenameFromURL_def)

text \<open>The file name sent upstream for a URL job is a single non-empty path segment.\<close>

lemma download_filename_safe:
  "filenameFromURL up url \<noteq> [] \<and> slash \<notin> set (filenameFromURL up url)"
  by (rule filenameFromURL_safe)

section \<open>A healthy run\<close>

text \<open>An upstream that answers every request with status 200 and the body \<open>body\<close>.\<close>

definition upstream_up :: "('e \<Rightarrow> op \<Rightarrow> reply \<times> 'e) \<Rightarrow> string \<Rightarrow> bool" where
  "upstream_up E body \<longleftrightarrow> (\<forall>e a u. fst (E e (ONewRequest a u)) = RErr None)
     \<and> (\<forall>e. fst (E e OGate) = RBool True)
     \<and> (\<forall>e req t. response_result (as_respE (fst (E e (OPost req t)))) = Inr body)"

text \<open>
  The audio of a job can be had, with the file name \<open>f\<close> and the bytes \<open>bs\<close>: it is in the
  store, or every download of its URL succeeds with it.
\<close>

definition audio_available ::
  "('e \<Rightarrow> op \<Rightarrow> reply \<times> 'e) \<Rightarrow> (string \<Rightarrow> string option) \<Rightarrow> pool \<Rightarrow> audio_mem \<Rightarrow> job \<Rightarrow> string \<Rightarrow> string \<Rightarrow> bool" where
  "audio_available E up p m j f bs \<longleftrightarrow>
     (job_Source j = SourceUpload \<and> (\<exists>q. clip_of m (job_ID j) = Some q \<and> Filename (clips m q) = f
        \<and> read_slice (Data (clips m q)) m = bs))
     \<or> (job_Source j = SourceURL \<and> (\<forall>e. download_result up (job_URL j) (maxAudioBytes p)
        (as_respE (fst (E e (OGet (job_URL j) (downloadTimeout p))))) = Inr (f, bs)))"

lemma Transcribe_up:
  assumes "upstream_up E body" and "\<not> gate w"
  shows "result (run (step_op E) (Transcribe c f s l) w) = Inr body"
    and "filter post_op (ops (run (step_op E) (Transcribe c f s l) w))
      = [OPost (whisper_request c f (read_slice s (mem w)) l) (http_timeout c)]"
    and "mem (final (run (step_op E) (Transcribe c f s l) w)) = mem w"
  using assms by (simp_all add: Transcribe_def upstream_up_def run_simps step_op_external world_simps(1,2,8) prod.case_eq_if Let_def)

lemma transcribeWithRetry_up:
  assumes "upstream_up E body" and "\<not> gate w"
  shows "result (run (step_op E) (transcribeWithRetry p f s l) w) = Inr body"
    and "filter post_op (ops (run (step_op E) (transcribeWithRetry p f s l) w))
      = [OPost (whisper_request (pool_whisper p) f (read_slice s (mem w)) l) (http_timeout (pool_whisper p))]"
  using Transcribe_up [OF assms]
  by (simp_all add: transcribeWithRetry_def transcribe_loop_0 attempt_call_def run_simps)

lemma fetchAudio_up:
  assumes "audio_available E up p (mem w) j f bs" and "upstream_up E body" and "\<not> gate w"
  shows "\<exists>s. result (run (step_op E) (fetchAudio up p (job_ID j) j) w) = Inr (f, s)
    \<and> read_slice s (mem (final (run (step_op E) (fetchAudio up p (job_ID j) j) w))) = bs
    \<and> \<not> gate (final (run (step_op E) (fetchAudio up p (job_ID j) j) w))"
  using assms
  by (auto simp: audio_available_def upstream_up_def fetchAudio_def download_def run_simps step_op_external
      world_simps(3,5) prod.case_eq_if Let_def source_defs Take_def clip_of_def alloc_buf_def read_slice_def split: option.split)

lemma no_posts: "filter post_op (ops (run X (fetchAudio up p jid j) w)) = []"
  by (rule only_filter, rule only_mono [OF only_fetchAudio], simp add: classes)

text \<open>A healthy job completes, with exactly its own audio. When the job can be read and is
  not terminal, its audio can be had, the gate is free and the upstream works, \<open>handle\<close>
  sends one request upstream, with the file name, the bytes and the language of the job,
  and stores the answer as the completed result before it acks.\<close>

lemma healthy_run:
  fixes E up p m w
  defines "z \<equiv> run (step_op E) (handle up p m) w"
  assumes "fst (E (ext w) (OHGetAll (jobKey (JobID m)))) = RHashE (Inr fs)" and "fs \<noteq> []"
    and "job_Status (job_of_hash (JobID m) fs) \<notin> {StatusCompleted, StatusFailed}"
    and "audio_available E up p (mem w) (job_of_hash (JobID m) fs) f bs"
    and "upstream_up E body" and "\<not> gate w"
  shows "\<exists>at. filter redis_op (ops z) = outcome_ops p m (Completed body at)
    \<and> filter post_op (ops z) = [OPost (whisper_request (pool_whisper p) f bs
          (job_language p (job_of_hash (JobID m) fs))) (http_timeout (pool_whisper p))]"
proof -
  let ?j = "job_of_hash (JobID m) fs" and ?w = "w\<lparr>in_flight := in_flight w + 1\<rparr>"
  let ?l = "if job_Language ?j = [] then defaultLanguage p else job_Language ?j"
  have id: "job_ID ?j = JobID m" by (simp add: job_of_hash_def)
  have g: "result (run (step_op E) (Get (JobID m)) ?w) = Inr ?j"
    using assms(2,3) by (simp add: result_Get step_op_external)
  define w1 where "w1 = final (run (step_op E) (SetProcessing (pool_store p) (JobID m))
    (final (run (step_op E) (Get (JobID m)) ?w)))"
  have w1: "mem w1 = mem w" "gate w1 = gate w"
    by (simp_all add: w1_def SetProcessing_def run_store_simps step_op_external)
  let ?F = "run (step_op E) (fetchAudio up p (JobID m) ?j) w1"
  from fetchAudio_up [OF _ assms(6), of up p w1 ?j f bs] assms(5,7) obtain s where
    s: "result ?F = Inr (f, s)" "read_slice s (mem (final ?F)) = bs" "\<not> gate (final ?F)"
    unfolding w1 id by blast
  let ?T = "run (step_op E) (transcribeWithRetry p f s ?l) (final ?F)"
  note T = transcribeWithRetry_up [OF assms(6) s(3), of p f s ?l]
  let ?at = "result (run (step_op E) nowRFC3339 (snd (step_op E (final ?T) (OZeroSlice s))))"
  have h: "ops z = OInFlight 1 # OHGetAll (jobKey (JobID m))
      # OTx (update_cmds (pool_store p) (JobID m) processing_fields)
      # ops ?F @ ops ?T @ [OZeroSlice s, ONow, OTx (update_cmds (pool_store p) (JobID m) (completed_fields body ?at)),
        OTx (ack_cmds (MessageID m)), ODrop (JobID m), OInFlight (- 1)]"
    using g s(1) T(1) assms(4)
    by (simp add: z_def handle_def handle_body_def handle_job_def handle_result_def run_simps run_store_simps
        ops_ack ops_nowRFC3339 SetCompleted_def SetProcessing_def world_simps(10) w1_def Let_def)
  show ?thesis
    using T(2) s(2) by (intro exI [of _ ?at]) (simp add: h no_redis no_posts outcome_ops_def job_language_def)
qed


text \<open>The example environment with an upstream that always succeeds.\<close>

fun ex_up :: "ex_state \<Rightarrow> op \<Rightarrow> reply \<times> ex_state" where
  "ex_up s (OPost req t) =
     (RRespE (Inr \<lparr>resp_status = 200, resp_length = 2, resp_body = [(''{}'', None)]\<rparr>), s)"
| "ex_up s o' = ex_env s o'"

lemma healthy_run_witness:
  "filter post_op (ops (run (step_op ex_up) (handle (\<lambda>_. None) ex_pool ex_message) (ex_world 200)))
    = [OPost (whisper_request (pool_whisper ex_pool) ''a.wav'' ''RIFF'' ''pt'') Minute]"
proof -
  let ?w = "ex_world 200" and ?j = "job_of_hash (JobID ex_message) upload_hash"
  have h: "fst (ex_up (ext ?w) (OHGetAll (jobKey (JobID ex_message)))) = RHashE (Inr upload_hash)" "upload_hash \<noteq> []"
    by (simp_all add: ex_world_def init_world_def upload_hash_def)
  have st: "job_Status ?j \<notin> {StatusCompleted, StatusFailed}"
    and l: "job_language ex_pool ?j = ''pt''" and t: "http_timeout (pool_whisper ex_pool) = Minute"
    by (simp_all add: job_of_hash_def upload_hash_def status_defs job_language_def ex_pool_def)
  have up: "upstream_up ex_up ''{}''" by (simp add: upstream_up_def response_result_def)
  have "audio_available ex_up (\<lambda>_. None) ex_pool (mem ?w) ?j ''a.wav'' ''RIFF''"
    by (simp add: audio_available_def ex_run read_slice_def)
  from healthy_run [OF h st this up] l t show ?thesis by (simp add: ex_world_def init_world_def)
qed

end
