(* ===== verification/Settings_Properties.thy ===== *)
theory Settings_Properties
  imports Config
begin

text \<open>
  The properties of the settings: the processing window (parsing, membership, the time to
  the next opening) and the configuration read from the environment.
\<close>

section \<open>The window\<close>

text \<open>C25: While the window is closed, \<open>NextOpen\<close> is exactly the time to the next opening:
  the window is open after that delay and at no instant before, for a zone whose offset
  does not change during the next 24 hours (windows over midnight included).\<close>

theorem NextOpen_exact:
  assumes "window_ok w" and "\<not> IsOpen w t"
    and "\<forall>u. t \<le> u \<and> u \<le> t + 24 * Hour \<longrightarrow> loc w (u div 10 ^ 9) = loc w (t div 10 ^ 9)"
  shows "0 < NextOpen w t \<and> NextOpen w t \<le> 24 * Hour \<and> IsOpen w (t + NextOpen w t)
    \<and> (\<forall>s. 0 \<le> s \<and> s < NextOpen w t \<longrightarrow> \<not> IsOpen w (t + s))"
  using NextOpen_first_open [OF assms] NextOpen_closed(2,3) [OF assms(1,2)] by blast

text \<open>A window over midnight, 22:00 to 05:00 in UTC, at noon of the first day.\<close>

definition night :: window where
  "night = \<lparr>enabled = True, startMin = 1320, endMin = 300, loc = (\<lambda>_. 0)\<rparr>"

lemma night_noon: "window_ok night" "\<not> IsOpen night (12 * Hour)"
  by (simp_all add: window_ok_def night_def IsOpen_def Let_def In_def minuteOfDay_def hour_of_def
      minute_of_def local_sec_def Hour_def)

theorem NextOpen_exact_witness:
  "NextOpen night (12 * Hour) = 10 * Hour \<and> IsOpen night (12 * Hour + NextOpen night (12 * Hour))"
proof -
  have "NextOpen night (12 * Hour) = 10 * Hour"
    using night_noon(2)
    by (simp add: NextOpen_def night_def Let_def In_def minuteOfDay_def hour_of_def minute_of_def
        local_sec_def second_of_def nanosecond_of_def duration_defs)
  moreover have "IsOpen night (12 * Hour + NextOpen night (12 * Hour))"
    using NextOpen_exact [OF night_noon] by (simp add: night_def)
  ultimately show ?thesis by blast
qed

text \<open>The two cases of \<open>IsOpen\<close> (a window within the day, a window over midnight) are one
  rule on the circle of minutes: the window is open at \<open>t\<close> exactly when fewer minutes have
  passed on the local clock since the last start than the window is long.\<close>

lemma IsOpen_circle:
  assumes "window_ok w" and "enabled w"
  shows "IsOpen w t \<longleftrightarrow>
    (minuteOfDay (In t (loc w)) - startMin w) mod 1440 < (endMin w - startMin w) mod 1440"
  using IsOpen_cyc [OF assms] by (simp add: cyc_open_def)

lemma IsOpen_circle_witness:
  "IsOpen night (23 * Hour) \<longleftrightarrow>
    (minuteOfDay (In (23 * Hour) (loc night)) - startMin night) mod 1440
      < (endMin night - startMin night) mod 1440"
  by (rule IsOpen_circle) (simp_all add: night_noon(1), simp add: night_def)

lemma parseHHMM_Nil [simp]: "\<exists>e. parseHHMM [] = Inl e"
  by (simp add: parseHHMM_def)

text \<open>C38: \<open>Parse\<close> accepts exactly two kinds of settings: both ends blank, which gives the
  disabled window, and two different times of day with a known zone (UTC when none is
  named), which give the enabled window with those minutes.\<close>

theorem Parse_accepts_iff:
  "Parse ll s e tz = Inr w \<longleftrightarrow>
     (trim_space s = [] \<and> trim_space e = [] \<and> w = zero_window)
     \<or> (\<exists>a b l. parseHHMM (trim_space s) = Inr a \<and> parseHHMM (trim_space e) = Inr b \<and> a \<noteq> b
          \<and> ll (if tz = [] then ''UTC'' else tz) = Inr l
          \<and> w = \<lparr>enabled = True, startMin = a, endMin = b, loc = l\<rparr>)"
proof -
  have n: "parseHHMM [] \<noteq> Inr a" for a by (simp add: parseHHMM_def)
  show ?thesis by (auto simp: Parse_def Let_def n split: sum.splits)
qed

lemma scan_zeros: "scan_uint 0 (replicate k (CHR ''0'') @ xs) = scan_uint 0 xs"
  by (induction k) (simp_all add: is_digit_def)

lemma digits_padded:
  assumes "0 \<le> n" and "n < 2 ^ 63"
  shows "parse_int fn (replicate k (CHR ''0'') @ show_int n) = Inr n"
proof -
  define d where "d = digits10 (nat n)"
  define p where "p = replicate k (CHR ''0'') @ d"
  have "scan_uint 0 p = Digits (nat n)"
    using assms scan_uint_digits10 [of "nat n"] by (simp add: p_def d_def scan_zeros nat_less_iff)
  moreover have "p \<noteq> []" by (simp add: p_def d_def digits10_nonempty)
  moreover have "hd p \<noteq> CHR ''-'' \<and> hd p \<noteq> CHR ''+''"
    using hd_digits10 [of "nat n"] by (cases k) (simp_all add: p_def d_def)
  ultimately have "parse_int fn p = Inr n" using assms by (simp add: parse_int_def Let_def nat_less_iff)
  then show ?thesis using assms(1) by (simp add: p_def d_def show_int_def)
qed

lemma no_colon: "0 \<le> n \<Longrightarrow> CHR '':'' \<notin> set (show_int n)"
  using digits10_digits [of "CHR '':''" "nat n"] by (auto simp: show_int_def is_digit_def)

text \<open>C39: A time of day written as two digits, a colon and two digits is read back as its
  minute of the day, for all 1440 of them; so is one with the leading zeros left out, which
  the \<open>HH:MM\<close> of the comment does not announce.\<close>

theorem parseHHMM_round_trip:
  assumes "0 \<le> h" and "h < 24" and "0 \<le> mn" and "mn < 60"
  shows "parseHHMM (pad 2 h @ '':'' @ pad 2 mn) = Inr (h * 60 + mn)
    \<and> parseHHMM (show_int h @ '':'' @ show_int mn) = Inr (h * 60 + mn)"
proof -
  have *: "parseHHMM ((replicate i (CHR ''0'') @ show_int h) @ '':'' @ (replicate j (CHR ''0'') @ show_int mn))
      = Inr (h * 60 + mn)" for i j
  proof -
    have "CHR '':'' \<notin> set (replicate i (CHR ''0'') @ show_int h)" using no_colon assms(1) by auto
    from cut_append [OF this] have c: "cut (CHR '':'') ((replicate i (CHR ''0'') @ show_int h) @ '':''
        @ (replicate j (CHR ''0'') @ show_int mn))
        = Some (replicate i (CHR ''0'') @ show_int h, replicate j (CHR ''0'') @ show_int mn)" by simp
    have "atoi (replicate i (CHR ''0'') @ show_int h) = Inr h"
      "atoi (replicate j (CHR ''0'') @ show_int mn) = Inr mn"
      using assms by (intro digits_padded; simp)+
    with c assms show ?thesis unfolding parseHHMM_def by simp
  qed
  show ?thesis
    using *[of "2 - length (show_int h)" "2 - length (show_int mn)"] *[of 0 0] assms
    by (simp add: pad_def Let_def)
qed

theorem parseHHMM_round_trip_witness:
  "parseHHMM (pad 2 9 @ '':'' @ pad 2 5) = Inr 545 \<and> parseHHMM (show_int 9 @ '':'' @ show_int 5) = Inr 545"
  using parseHHMM_round_trip [of 9 5] by simp

section \<open>The configuration\<close>

text \<open>The environment with the two secrets and, for the examples, one more variable.\<close>

definition env_with :: "string \<Rightarrow> string \<Rightarrow> string \<Rightarrow> string" where
  "env_with k v = (\<lambda>x. if x = ''API_KEY'' then ''a'' else if x = ''WHISPER_API_KEY'' then ''b''
     else if x = k then v else [])"

lemma Load_unset:
  assumes "\<And>k. k \<noteq> ''API_KEY'' \<Longrightarrow> k \<noteq> ''WHISPER_API_KEY'' \<Longrightarrow> g k = []"
  shows "Load frac ll g =
    (if g ''API_KEY'' = [] then Inl (ErrNew ''API_KEY is required (client authentication)'')
     else if g ''WHISPER_API_KEY'' = [] then
       Inl (ErrNew ''WHISPER_API_KEY is required (upstream authentication)'')
     else Inr \<lparr>cfg_Port = ''8770'', cfg_APIKey = g ''API_KEY'',
       cfg_RedisURL = ''redis://localhost:6379/0'',
       cfg_WhisperUpstreamURL = ''https://whisper.lai.ia.br'', cfg_WhisperAPIKey = g ''WHISPER_API_KEY'',
       cfg_MaxConcurrency = 2, cfg_QueueSize = 5000, cfg_JobTTL = Hour,
       cfg_MaxAudioBytes = 100 * 2 ^ 20, cfg_DownloadTimeout = 10 * Minute,
       cfg_UpstreamTimeout = 10 * Minute, cfg_DefaultLanguage = ''pt'',
       cfg_WhisperWindow = zero_window\<rparr>)"
proof -
  have t: "trim_space [] = []"
    by (simp add: trim_space_def strip.simps lead_Nil)
  show ?thesis
    by (simp add: Load_def Let_def getEnvInt_def getEnvInt64_def getEnvDuration_def getEnv_def
        Parse_def assms t validate_def Minute_def Second_def)
qed

text \<open>A configuration that \<open>Load\<close> returns is usable: both keys and both addresses are
  set, the three limits are at least one and within 64 bits, and the window is well-formed.\<close>

lemma Load_config_ok:
  assumes "Load frac ll g = Inr c"
  shows "config_ok c"
proof -
  from assms obtain mc qs mb jt dt ut w where
    r: "getEnvInt g ''MAX_CONCURRENCY'' 2 = Inr mc" "getEnvInt g ''QUEUE_SIZE'' 5000 = Inr qs"
      "getEnvInt64 g ''MAX_AUDIO_BYTES'' 104857600 = Inr mb"
      "Parse ll (g ''WHISPER_WINDOW_START'') (g ''WHISPER_WINDOW_END'')
         (getEnv g ''WHISPER_WINDOW_TZ'' ''America/Sao_Paulo'') = Inr w"
    and v: "validate c = None" "cfg_MaxConcurrency c = mc" "cfg_QueueSize c = qs"
      "cfg_MaxAudioBytes c = mb" "cfg_WhisperWindow c = w"
    unfolding Load_def Let_def andThen_Inr_iff map_err_Inr_iff
    by (auto split: option.splits)
  from r have "int64 mc" "int64 qs" "int64 mb" "window_ok w"
    by (auto dest: getEnvInt_int64 getEnvInt64_int64 Parse_window_ok)
  with v validate_None [OF v(1)] show ?thesis by (simp add: config_ok_def)
qed

lemma Load_config_ok_witness:
  "\<exists>c. Load (\<lambda>_ _ _. 0) (\<lambda>_. Inl RedisNil) (env_with [] []) = Inr c \<and> config_ok c"
proof -
  obtain c where c: "Load (\<lambda>_ _ _. 0) (\<lambda>_. Inl RedisNil) (env_with [] []) = Inr c"
    using Load_unset [of "env_with [] []" "\<lambda>_ _ _. 0" "\<lambda>_. Inl RedisNil"]
    by (simp add: env_with_def)
  from Load_config_ok [OF c] c show ?thesis by blast
qed

text \<open>With the two secrets alone \<open>Load\<close> succeeds, with the documented defaults, whatever
  the secrets are and without looking up a time zone; without either secret it fails.\<close>

lemma Load_defaults:
  assumes "\<And>k. k \<noteq> ''API_KEY'' \<Longrightarrow> k \<noteq> ''WHISPER_API_KEY'' \<Longrightarrow> g k = []"
  shows "Load frac ll g =
    (if g ''API_KEY'' = [] then Inl (ErrNew ''API_KEY is required (client authentication)'')
     else if g ''WHISPER_API_KEY'' = [] then
       Inl (ErrNew ''WHISPER_API_KEY is required (upstream authentication)'')
     else Inr \<lparr>cfg_Port = ''8770'', cfg_APIKey = g ''API_KEY'',
       cfg_RedisURL = ''redis://localhost:6379/0'',
       cfg_WhisperUpstreamURL = ''https://whisper.lai.ia.br'', cfg_WhisperAPIKey = g ''WHISPER_API_KEY'',
       cfg_MaxConcurrency = 2, cfg_QueueSize = 5000, cfg_JobTTL = Hour,
       cfg_MaxAudioBytes = 100 * 2 ^ 20, cfg_DownloadTimeout = 10 * Minute,
       cfg_UpstreamTimeout = 10 * Minute, cfg_DefaultLanguage = ''pt'',
       cfg_WhisperWindow = zero_window\<rparr>)"
  by (rule Load_unset) (rule assms)

lemma Load_defaults_witness:
  "\<exists>c. Load (\<lambda>_ _ _. 0) (\<lambda>_. Inl RedisNil) (env_with [] []) = Inr c \<and> cfg_QueueSize c = 5000"
  using Load_defaults [of "env_with [] []" "\<lambda>_ _ _. 0" "\<lambda>_. Inl RedisNil"]
  by (simp add: env_with_def)

section \<open>Durations\<close>

lemma leading_int_append:
  "leading_int x (xs @ ys) = (case leading_int x xs of None \<Rightarrow> None | Some y \<Rightarrow> leading_int y ys)"
proof (induction xs arbitrary: x)
  case (Cons a xs)
  define y where "y = x * 10 + (code a - 48)"
  show ?case unfolding append_Cons leading_int.simps Cons.IH y_def [symmetric] by simp
qed simp

lemma leading_int_digits10: "n \<le> 2 ^ 63 \<Longrightarrow> leading_int 0 (digits10 n) = Some n"
proof (induction n rule: digits10.induct)
  case (1 n)
  show ?case
  proof (cases "n < 10")
    case True
    then show ?thesis by (simp add: digits10.simps [of n])
  next
    case False
    have "n div 10 \<le> 2 ^ 63" using "1.prems" by simp
    with False "1.IH" have "leading_int 0 (digits10 (n div 10)) = Some (n div 10)" by simp
    moreover have "n div 10 * 10 + n mod 10 = n" by simp
    moreover have "n div 10 \<le> 2 ^ 63 div 10" using "1.prems" by (rule div_le_mono)
    ultimately show ?thesis using False "1.prems"
      by (simp add: digits10.simps [of n] leading_int_append)
  qed
qed

lemma unit_ns_chars: "unit_ns u = Some k \<Longrightarrow> u \<noteq> [] \<and> (\<forall>c \<in> set u. unit_char c) \<and> 0 < k"
  by (auto simp: unit_ns_def unit_char_def is_digit_def split: if_splits)

lemma duration_term_plain:
  assumes "unit_ns u = Some k" and "n * k \<le> 2 ^ 63"
  shows "duration_term frac orig (digits10 n @ u) = Inr (n * k, [])"
proof -
  note u = unit_ns_chars [OF assms(1)]
  have dig: "\<forall>c \<in> set (digits10 n). is_digit c" using digits10_digits by blast
  have nd: "\<forall>c \<in> set u. \<not> is_digit c" using u by (auto simp: unit_char_def)
  have "takeWhile is_digit u = []" "dropWhile is_digit u = u" using nd u by (cases u; simp)+
  then have t: "takeWhile is_digit (digits10 n @ u) = digits10 n" "dropWhile is_digit (digits10 n @ u) = u"
    using dig by (simp_all add: takeWhile_append dropWhile_append)
  have hd: "\<not> unit_char (hd (digits10 n @ u))"
    using dig digits10_nonempty [of n] by (simp add: unit_char_def)
  have dot: "hd u \<noteq> CHR ''.''" using u hd_in_set [of u] by (auto simp: unit_char_def)
  have tu: "takeWhile unit_char u = u" "dropWhile unit_char u = []" using u by simp_all
  have le: "n \<le> 2 ^ 63 div k" using assms(2) u by (simp add: less_eq_div_iff_mult_less_eq)
  then have "n \<le> 2 ^ 63" by (rule order_trans) simp
  then have li: "leading_int 0 (digits10 n) = Some n" by (rule leading_int_digits10)
  show ?thesis
    unfolding duration_term_def Let_def t
    using hd li dot u le assms(1) by (simp add: digits10_nonempty tu)
qed

text \<open>Durations of one whole number and one unit are read exactly: every number of
  nanoseconds, microseconds, milliseconds, seconds, minutes or hours that fits a
  \<open>time.Duration\<close>, negative ones included.\<close>

lemma parse_duration_exact:
  assumes "unit_ns u = Some k" and "\<bar>n\<bar> * int k \<le> max_int64"
  shows "parse_duration frac (show_int n @ u) = Inr (n * int k)"
proof -
  define d where "d = nat \<bar>n\<bar>"
  note u = unit_ns_chars [OF assms(1)]
  have "int (d * k) \<le> int (2 ^ 63 - 1)" using assms(2) by (simp add: d_def max_int64_def)
  then have le: "d * k \<le> 2 ^ 63 - 1" by (simp only: of_nat_le_iff)
  then have "duration_loop frac orig 0 (digits10 d @ u) = Inr (d * k)" for orig
    using duration_term_plain [OF assms(1), of d frac orig] digits10_nonempty [of d]
    by (simp add: duration_loop.simps [of _ _ _ "_ @ _"] duration_loop.simps [of _ _ _ "[]"] Let_def)
  moreover have "digits10 d @ u \<noteq> ''0''"
    using u digits10_nonempty [of d] by (cases "digits10 d") (auto simp: Cons_eq_append_conv)
  moreover have "hd (digits10 d @ u) \<noteq> CHR ''-''" "hd (digits10 d @ u) \<noteq> CHR ''+''"
    using hd_digits10 [of d] digits10_nonempty [of d] by simp_all
  ultimately show ?thesis
    using le digits10_nonempty [of d]
    by (cases "n < 0") (auto simp: parse_duration_def show_int_def d_def Let_def)
qed

lemma parse_duration_exact_witness:
  "parse_duration (\<lambda>_ _ _. 0) (show_int (- 1) @ ''h'') = Inr (- Hour)"
proof -
  have "unit_ns ''h'' = Some 3600000000000" by (simp add: unit_ns_def)
  from parse_duration_exact [OF this, of "- 1"] show ?thesis
    by (simp add: max_int64_def Hour_def)
qed

text \<open>\<open>validate\<close> does not look at the durations: \<open>Load\<close> accepts every \<open>JOB_TTL\<close> that
  parses, zero and negative ones included.\<close>

lemma Load_accepts_any_ttl:
  assumes "v \<noteq> []" and "parse_duration frac v = Inr d"
  shows "\<exists>c. Load frac ll (env_with ''JOB_TTL'' v) = Inr c \<and> cfg_JobTTL c = d"
proof -
  have t: "trim_space [] = []"
    by (simp add: trim_space_def strip.simps lead_Nil)
  show ?thesis
    using assms
    by (simp add: Load_def Let_def getEnvInt_def getEnvInt64_def getEnvDuration_def getEnv_def
        Parse_def t env_with_def validate_def)
qed

lemma Load_accepts_any_ttl_witness:
  "\<exists>c. Load (\<lambda>_ _ _. 0) (\<lambda>_. Inl RedisNil) (env_with ''JOB_TTL'' ''0'') = Inr c \<and> cfg_JobTTL c = 0"
  by (rule Load_accepts_any_ttl) (simp_all add: parse_duration_def)

end
