(* ===== verification/System.thy ===== *)
theory System
  imports Service
begin

text \<open>
  The running service: the goroutines of \<open>Run\<close> and one goroutine per HTTP request, over
  the shared world, interleaved one operation at a time. An operation is the unit the
  source makes atomic: one Redis command or transaction, one upstream call, one method of
  the audio store under its mutex, one atomic add, one channel operation on the gate.
\<close>

section \<open>Goroutines\<close>

text \<open>The parts \<open>main\<close> wires together, with the library functions they are given.\<close>

record deployment =
  dep_pool :: pool
  dep_server :: server
  dep_url_path :: "string \<Rightarrow> string option"
  dep_url_parse :: "string \<Rightarrow> url option"

datatype thread =
    Loop goroutine "turn prog"
  | Request "(http_response \<times> log_entry) prog"
  | Done

record 'e sys =
  procs :: "thread list"
  shared :: "'e world"

fun next_op :: "thread \<Rightarrow> op option" where
  "next_op (Loop g (Op o' k)) = Some o'"
| "next_op (Request (Op o' k)) = Some o'"
| "next_op _ = None"

fun advance :: "reply \<Rightarrow> thread \<Rightarrow> thread" where
  "advance r (Loop g (Op o' k)) = Loop g (k r)"
| "advance r (Request (Op o' k)) = Request (k r)"
| "advance r t = t"

definition iteration :: "deployment \<Rightarrow> goroutine \<Rightarrow> bool \<Rightarrow> thread" where
  "iteration d g closed = Loop g (goroutine_iter (dep_url_path d) (dep_pool d) g closed)"

text \<open>A finished turn starts the next one or ends the goroutine; a served request ends.\<close>

fun settle :: "deployment \<Rightarrow> thread \<Rightarrow> thread" where
  "settle d (Loop g (Ret (Continue closed))) = iteration d g closed"
| "settle d (Loop g (Ret Return)) = Done"
| "settle d (Request (Ret resp)) = Done"
| "settle d t = t"

definition request :: "deployment \<Rightarrow> http_request \<Rightarrow> thread" where
  "request d r = Request (Handler (dep_server d) (dep_url_parse d) newJobID r)"

definition init_sys :: "deployment \<Rightarrow> 'e \<Rightarrow> 'e sys" where
  "init_sys d e = \<lparr>procs = map (\<lambda>g. iteration d g False) (Run (dep_pool d)), shared = init_world e\<rparr>"

section \<open>Steps\<close>

text \<open>
  A send on the full gate waits, unless the context is done; every other operation is
  answered at once.
\<close>

definition blocked :: "('e \<Rightarrow> op \<Rightarrow> reply \<times> 'e) \<Rightarrow> 'e world \<Rightarrow> op \<Rightarrow> bool" where
  "blocked E w o' \<longleftrightarrow> o' = OGate \<and> gate w \<and> as_bool (fst (E (ext w) OGate))"

inductive step :: "('e \<Rightarrow> op \<Rightarrow> reply \<times> 'e) \<Rightarrow> deployment \<Rightarrow> 'e sys \<Rightarrow> 'e sys \<Rightarrow> bool"
  for E d where
  perform: "i < length (procs c) \<Longrightarrow> next_op (procs c ! i) = Some o' \<Longrightarrow> \<not> blocked E (shared c) o'
    \<Longrightarrow> step_op E (shared c) o' = (r, w')
    \<Longrightarrow> step E d c \<lparr>procs = (procs c)[i := advance r (procs c ! i)], shared = w'\<rparr>"
| turn_over: "i < length (procs c) \<Longrightarrow> next_op (procs c ! i) = None
    \<Longrightarrow> step E d c (c\<lparr>procs := (procs c)[i := settle d (procs c ! i)]\<rparr>)"
| arrive: "step E d c (c\<lparr>procs := procs c @ [request d r]\<rparr>)"

inductive reachable :: "('e \<Rightarrow> op \<Rightarrow> reply \<times> 'e) \<Rightarrow> deployment \<Rightarrow> 'e sys \<Rightarrow> bool" for E d where
  start: "reachable E d (init_sys d e)"
| later: "reachable E d c \<Longrightarrow> step E d c c' \<Longrightarrow> reachable E d c'"

inductive_cases stepE: "step E d c c'"

text \<open>A schedule: who moves next. It runs the system deterministically.\<close>

datatype move = Run_thread nat | Turn nat | Arrive http_request

fun exec_move :: "('e \<Rightarrow> op \<Rightarrow> reply \<times> 'e) \<Rightarrow> deployment \<Rightarrow> move \<Rightarrow> 'e sys \<Rightarrow> 'e sys option" where
  "exec_move E d (Run_thread i) c =
     (if i < length (procs c) then
        (case next_op (procs c ! i) of
           None \<Rightarrow> None
         | Some o' \<Rightarrow>
             if blocked E (shared c) o' then None
             else (let (r, w') = step_op E (shared c) o'
                   in Some \<lparr>procs = (procs c)[i := advance r (procs c ! i)], shared = w'\<rparr>))
      else None)"
| "exec_move E d (Turn i) c =
     (if i < length (procs c) \<and> next_op (procs c ! i) = None
      then Some (c\<lparr>procs := (procs c)[i := settle d (procs c ! i)]\<rparr>) else None)"
| "exec_move E d (Arrive r) c = Some (c\<lparr>procs := procs c @ [request d r]\<rparr>)"

fun exec_moves :: "('e \<Rightarrow> op \<Rightarrow> reply \<times> 'e) \<Rightarrow> deployment \<Rightarrow> move list \<Rightarrow> 'e sys \<Rightarrow> 'e sys option" where
  "exec_moves E d [] c = Some c"
| "exec_moves E d (m # ms) c = (case exec_move E d m c of None \<Rightarrow> None | Some c' \<Rightarrow> exec_moves E d ms c')"

lemma exec_move_step: "exec_move E d m c = Some c' \<Longrightarrow> step E d c c'"
  by (cases m) (auto split: if_splits option.splits prod.splits intro: step.intros)

lemma exec_moves_reachable:
  "reachable E d c \<Longrightarrow> exec_moves E d ms c = Some c' \<Longrightarrow> reachable E d c'"
proof (induction ms arbitrary: c)
  case (Cons m ms)
  then show ?case by (auto split: option.splits dest: exec_move_step intro: reachable.later)
qed simp

section \<open>Monitors\<close>

text \<open>
  An invariant of the running service is proved with a monitor: a private state for every
  thread, which its operations change, a condition that ties a thread to its state, and a
  condition on all the states and the shared world. The laws say that both hold at the
  start, for a new request, and after one operation of one thread, and that they do not
  depend on the state of the environment.
\<close>

locale thread_monitor =
  fixes thread_inv :: "'m \<Rightarrow> thread \<Rightarrow> bool"
    and world_inv :: "'m list \<Rightarrow> 'e world \<Rightarrow> bool"
    and idle :: 'm
    and E :: "'e \<Rightarrow> op \<Rightarrow> reply \<times> 'e"
    and d :: deployment
  assumes world_init: "world_inv (replicate n idle) (init_world e)"
    and loop_init: "thread_inv idle (iteration d g closed)"
    and request_init: "thread_inv idle (request d r)"
    and arrival: "world_inv ms w \<Longrightarrow> world_inv (ms @ [idle]) w"
    and outside: "world_inv ms w \<Longrightarrow> world_inv ms (w\<lparr>ext := e\<rparr>)"
    and settled: "thread_inv m t \<Longrightarrow> next_op t = None \<Longrightarrow> thread_inv m (settle d t)"
    and performed: "i < length ms \<Longrightarrow> world_inv ms w \<Longrightarrow> thread_inv (ms ! i) t \<Longrightarrow> next_op t = Some o'
      \<Longrightarrow> \<not> blocked E w o' \<Longrightarrow> step_op E w o' = (reply, w')
      \<Longrightarrow> \<exists>m'. thread_inv m' (advance reply t) \<and> world_inv (ms[i := m']) w'"
begin

definition holds :: "'m list \<Rightarrow> 'e sys \<Rightarrow> bool" where
  "holds ms c \<longleftrightarrow> list_all2 thread_inv ms (procs c) \<and> world_inv ms (shared c)"

lemma holds_step:
  assumes "holds ms c" and "step E d c c'"
  shows "\<exists>ms'. holds ms' c'"
  using assms(2)
proof cases
  case (perform i o' r w')
  from assms(1) have ok: "list_all2 thread_inv ms (procs c)" and w: "world_inv ms (shared c)"
    by (simp_all add: holds_def)
  from ok perform(2) have il: "i < length ms" by (simp add: list_all2_lengthD)
  from performed [OF il w list_all2_nthD [OF ok il] perform(3-5)] obtain m' where
    "thread_inv m' (advance r (procs c ! i))" "world_inv (ms[i := m']) w'" by blast
  with ok show ?thesis
    by (intro exI [of _ "ms[i := m']"]) (simp add: holds_def perform(1) list_all2_update_cong)
next
  case (turn_over i)
  from assms(1) have ok: "list_all2 thread_inv ms (procs c)" by (simp add: holds_def)
  with turn_over(2) have il: "i < length ms" by (simp add: list_all2_lengthD)
  have "thread_inv (ms ! i) (settle d (procs c ! i))"
    using list_all2_nthD [OF ok il] turn_over(3) by (rule settled)
  with ok have "list_all2 thread_inv (ms[i := ms ! i]) ((procs c)[i := settle d (procs c ! i)])"
    by (rule list_all2_update_cong)
  with assms(1) turn_over(1) show ?thesis by (intro exI [of _ ms]) (simp add: holds_def)
next
  case (arrive r)
  with assms(1) show ?thesis
    by (intro exI [of _ "ms @ [idle]"])
      (auto simp: holds_def request_init arrival intro!: list_all2_appendI)
qed

lemma holds_outside: "holds ms c \<Longrightarrow> holds ms (c\<lparr>shared := (shared c)\<lparr>ext := e\<rparr>\<rparr>)"
  by (simp add: holds_def outside)

lemma holds_init: "holds (replicate (length (Run (dep_pool d))) idle) (init_sys d e)"
proof -
  have "list_all2 thread_inv (replicate (length gs) idle) (map (\<lambda>g. iteration d g False) gs)" for gs
    by (induction gs) (auto simp: loop_init)
  then show ?thesis by (simp add: holds_def init_sys_def world_init)
qed

lemma reachable_holds: "reachable E d c \<Longrightarrow> \<exists>ms. holds ms c"
  by (induction rule: reachable.induct) (blast intro: holds_init, blast dest: holds_step)

end

section \<open>The protocol of the shared counters\<close>

text \<open>
  \<open>obeys m p m'\<close>: on every path \<open>p\<close> follows the protocol of the gate and the counter from
  the state \<open>m\<close> to \<open>m'\<close>. A state says whether the goroutine holds the gate and how many
  messages it is handling. Upstream calls are made under the gate only.
\<close>

type_synonym protocol = "bool \<times> int"

fun follow :: "protocol \<Rightarrow> op \<Rightarrow> reply \<Rightarrow> protocol" where
  "follow (h, n) OGate r = (as_bool r, n)"
| "follow (h, n) OGateRelease r = (False, n)"
| "follow (h, n) (OInFlight k) r = (h, n + k)"
| "follow m o' r = m"

fun allowed :: "protocol \<Rightarrow> op \<Rightarrow> bool" where
  "allowed (h, n) OGate \<longleftrightarrow> \<not> h"
| "allowed (h, n) OGateRelease \<longleftrightarrow> h"
| "allowed (h, n) (OPost req t) \<longleftrightarrow> h"
| "allowed (h, n) (OInFlight k) \<longleftrightarrow> \<not> h \<and> 0 \<le> n + k \<and> n + k \<le> 1"
| "allowed (h, n) o' \<longleftrightarrow> \<not> h"

primrec obeys :: "protocol \<Rightarrow> 'a prog \<Rightarrow> protocol \<Rightarrow> bool" where
  "obeys m (Ret x) m' \<longleftrightarrow> m = m'"
| "obeys m (Op o' k) m' \<longleftrightarrow> allowed m o' \<and> (\<forall>r. obeys (follow m o' r) (k r) m')"

lemma obeys_bind:
  "obeys m p m' \<Longrightarrow> (\<And>x. obeys m' (f x) m'') \<Longrightarrow> obeys m (bind p f) m''"
  by (induction p arbitrary: m) auto

text \<open>Programs that touch neither the gate nor the counter nor the upstream.\<close>

definition neutral :: "op \<Rightarrow> bool" where
  "neutral o' \<longleftrightarrow> \<not> counter_op o' \<and> \<not> post_op o'"

lemma neutral_allowed: "neutral o' \<Longrightarrow> allowed (False, n) o' \<and> follow (False, n) o' r = (False, n)"
  by (cases o') (simp_all add: neutral_def)

lemma obeys_neutral: "only neutral p \<Longrightarrow> obeys (False, n) p (False, n)"
  by (induction p) (auto simp: neutral_allowed)

lemma obeys_Transcribe: "obeys (False, n) (Transcribe c f d l) (False, n)"
  by (auto simp: Transcribe_def split: option.split)

lemma obeys_loop: "obeys (False, n) (transcribe_loop p f d l k e) (False, n)"
proof (induction p f d l k e rule: transcribe_loop.induct)
  case (1 p f d l k e)
  have call: "obeys (False, n) (bind (Transcribe (pool_whisper p) f d l) (\<lambda>res.
      case res of Inr body \<Rightarrow> Ret (Inr body)
      | Inl err \<Rightarrow> if \<not> IsTransient err then Ret (Inl err)
          else transcribe_loop p f d l (Suc k) err)) (False, n)" if "k \<le> maxRetries"
    using that by (auto intro!: obeys_bind [OF obeys_Transcribe] "1.IH" split: sum.split)
  then show ?case by (subst transcribe_loop.simps) (simp add: Let_def)
qed

lemma only_neutral [safe_ops]:
  "only neutral (fetchAudio up p jid j)" "only neutral (Get jid)" "only neutral (ack m)"
  "only neutral (update_job s jid fs)" "only neutral nowRFC3339" "only neutral (fail p m e)"
  "only neutral (handle_result p m d res)" "only neutral (Read c n b)" "only neutral (Claim c i k)"
proof -
  have f: "fetch_op o' \<Longrightarrow> neutral o'" for o' by (cases o') (simp_all add: neutral_def)
  show fa: "only neutral (fetchAudio up p jid j)" by (rule only_mono [OF only_fetchAudio f])
  show "only neutral (Get jid)" "only neutral (update_job s jid fs)"
    "only neutral (Read c n b)" "only neutral (Claim c i k)"
    by (simp_all add: only_store neutral_def)
  show a: "only neutral (ack m)" by (simp add: ack_def only_bind only_store neutral_def)
  show n: "only neutral nowRFC3339" by (simp add: nowRFC3339_def neutral_def)
  have u: "only neutral (update_job s jid fs)" for s jid fs by (simp add: only_store neutral_def)
  show fl: "only neutral (fail p m e)" for e
    unfolding fail_def SetFailed_def by (intro only_bind n u a)
  show "only neutral (handle_result p m d res)"
    unfolding handle_result_def SetCompleted_def
    by (cases res) (simp_all add: fl, simp_all add: neutral_def [of "OZeroSlice d"], intro only_bind n u a)
qed

lemmas obeys_leaf = only_neutral [THEN obeys_neutral]
lemmas obeys_then = obeys_leaf [THEN obeys_bind]

lemma obeys_handle_job: "obeys (False, n) (handle_job up p m j) (False, n)"
  unfolding handle_job_def SetProcessing_def Let_def transcribeWithRetry_def
  by (auto intro!: obeys_then obeys_leaf obeys_bind [OF obeys_loop] split: sum.split)

lemma obeys_handle: "obeys (False, 0) (handle up p m) (False, 0)"
proof -
  have "obeys (False, 1) (handle_body up p m) (False, 1)"
    unfolding handle_body_def
    by (auto intro!: obeys_then obeys_leaf obeys_handle_job split: sum.split)
  then show ?thesis
    by (auto simp: handle_def exec1_def intro: obeys_bind)
qed

lemma obeys_handle_all: "obeys (False, 0) (handle_all up p ms) (False, 0)"
  by (induction ms) (auto intro: obeys_bind [OF obeys_handle])

lemma obeys_iteration: "obeys (False, 0) (goroutine_iter up p g closed) (False, 0)"
  by (cases g)
    (auto simp: goroutine_iter_def consume_iter_def claim_iter_def
      intro!: obeys_then obeys_handle_all [THEN obeys_bind] split: sum.split)

lemma neutral_Handler: "only neutral (Handler s up newJobID r)"
proof -
  have nid: "only neutral newJobID" by (auto simp: newJobID_def neutral_def split: sum.split)
  have cr: "only neutral (CreateAndEnqueue st j)" for st j
    by (rule only_store(8)) (simp_all add: neutral_def)
  have nq: "only neutral (newQueuedJob jid src u l)" for jid src u l
    by (simp add: newQueuedJob_def now_rfc3339_def neutral_def)
  have up: "only neutral (handleUpload s newJobID r)"
    unfolding handleUpload_def
    by (auto intro!: only_bind nid cr nq split: sum.split option.split simp: neutral_def [of "OAlloc _"]
        neutral_def [of "OPut _ _ _"] neutral_def [of "ODrop _"])
  have ur: "only neutral (handleURL s up newJobID r)"
    unfolding handleURL_def Let_def by (auto intro!: only_bind nid cr nq split: sum.split option.split)
  have gj: "only neutral (handleGetJob jid r)" for jid
    unfolding handleGetJob_def by (auto intro!: only_bind only_neutral split: sum.split)
  have he: "only neutral (handleHealth s r)"
    by (auto simp: handleHealth_def QueueLen_def Ping_def neutral_def Let_def)
  have "only neutral (dispatch s up newJobID r)"
    unfolding dispatch_def auth_def Let_def
    by (auto intro: up ur gj he split: routed.split endpoint.split)
  then show ?thesis unfolding Handler_def by (intro only_bind) simp_all
qed

section \<open>The invariant\<close>

fun thread_ok :: "protocol \<Rightarrow> thread \<Rightarrow> bool" where
  "thread_ok m (Loop g p) \<longleftrightarrow> obeys m p (False, 0) \<and> 0 \<le> snd m \<and> snd m \<le> 1"
| "thread_ok m (Request p) \<longleftrightarrow> m = (False, 0) \<and> only neutral p"
| "thread_ok m Done \<longleftrightarrow> m = (False, 0)"

definition is_loop :: "thread \<Rightarrow> bool" where
  "is_loop t \<longleftrightarrow> (case t of Loop g p \<Rightarrow> True | _ \<Rightarrow> False)"

text \<open>
  The goroutines' protocol states \<open>ms\<close> agree with the shared world: the gate is taken
  exactly when one of them holds it, at most one does, and the counter is the number of
  messages being handled.
\<close>

definition agree :: "protocol list \<Rightarrow> 'e world \<Rightarrow> bool" where
  "agree ms w \<longleftrightarrow> length (filter fst ms) = (if gate w then 1 else 0)
     \<and> in_flight w = sum_list (map snd ms)"

lemma thread_ok_settle:
  "thread_ok m t \<Longrightarrow> next_op t = None \<Longrightarrow> thread_ok m (settle d t)"
proof (induction d t rule: settle.induct)
  case (1 d g closed)
  then show ?case using obeys_iteration by (auto simp: iteration_def)
qed (auto elim: thread_ok.elims)

lemma thread_ok_advance:
  "thread_ok m t \<Longrightarrow> next_op t = Some o' \<Longrightarrow> allowed m o' \<and> thread_ok (follow m o' r) (advance r t)"
proof (induction r t rule: advance.induct)
  case (1 r g o'' k)
  moreover have "0 \<le> snd (follow m o' r) \<and> snd (follow m o' r) \<le> 1"
    if "0 \<le> snd m" "snd m \<le> 1" "allowed m o'"
    using that by (cases "(m, o', r)" rule: follow.cases) auto
  ultimately show ?case by auto
next
  case (2 r o'' k)
  then show ?case using neutral_allowed [of o' 0 r] by auto
qed auto

lemma sum_list_int_update:
  "i < length ms \<Longrightarrow> sum_list (map f (ms[i := m])) = sum_list (map f ms) - f (ms ! i) + (f m :: int)"
proof (induction ms arbitrary: i)
  case (Cons a ms)
  then show ?case by (cases i) auto
qed simp

text \<open>One operation of one goroutine keeps the agreement.\<close>

lemma world_follow:
  assumes "allowed m o'" and "step_op E w o' = (r, w')" and "\<not> blocked E w o'"
    and "gate w \<longleftrightarrow> fst m \<or> other" and "fst m \<longrightarrow> \<not> other"
  shows "(gate w' \<longleftrightarrow> fst (follow m o' r) \<or> other) \<and> (fst (follow m o' r) \<longrightarrow> \<not> other)
    \<and> in_flight w' = in_flight w - snd m + snd (follow m o' r)"
  using assms
  by (cases m; cases o')
    (auto simp: world_simps Let_def blocked_def split: prod.splits if_splits)

lemma holders_update:
  "a' + (if b then 1 else 0) = a + (if b' then 1 else 0) \<Longrightarrow> a = (if g then 1 else 0)
    \<Longrightarrow> (other \<longleftrightarrow> a \<noteq> (if b then 1 else 0)) \<Longrightarrow> (g' \<longleftrightarrow> b' \<or> other) \<Longrightarrow> (b' \<longrightarrow> \<not> other)
    \<Longrightarrow> a' = (if g' then 1 else (0::nat))"
  by (cases b; cases b'; cases g) auto

lemma agree_perform:
  assumes il: "i < length ms" and "agree ms w" and "thread_ok (ms ! i) t" and "next_op t = Some o'"
    and "\<not> blocked E w o'" and "step_op E w o' = (r, w')"
  shows "\<exists>m'. thread_ok m' (advance r t) \<and> agree (ms[i := m']) w'"
proof -
  let ?m = "follow (ms ! i) o' r"
  have A: "length (filter fst ms) = (if gate w then 1 else 0)"
    and n: "in_flight w = sum_list (map snd ms)" using assms(2) by (simp_all add: agree_def)
  from thread_ok_advance [OF assms(3,4), of r]
  have al: "allowed (ms ! i) o'" and t: "thread_ok ?m (advance r t)" by simp_all
  define other where "other \<longleftrightarrow> length (filter fst ms) \<noteq> (if fst (ms ! i) then 1 else 0)"
  note u = length_filter_update [OF il, of fst "?m"] length_filter_update [OF il, of fst "(False, 0)"]
  have g: "gate w \<longleftrightarrow> fst (ms ! i) \<or> other" "fst (ms ! i) \<longrightarrow> \<not> other"
    using A u(2) by (auto simp: other_def split: if_splits)
  from world_follow [OF al assms(6,5) g]
  have w: "gate w' \<longleftrightarrow> fst ?m \<or> other" "fst ?m \<longrightarrow> \<not> other"
    "in_flight w' = in_flight w - snd (ms ! i) + snd ?m" by simp_all
  have "length (filter fst (ms[i := ?m])) = (if gate w' then 1 else 0)"
    by (rule holders_update [OF u(1) A other_def w(1,2)])
  moreover have "in_flight w' = sum_list (map snd (ms[i := ?m]))"
    using w(3) n by (simp add: sum_list_int_update [OF il])
  ultimately show ?thesis using t by (intro exI [of _ ?m]) (simp add: agree_def)
qed

interpretation counters: thread_monitor thread_ok agree "(False, 0)" E d for E d
proof
  show "thread_ok (False, 0) (iteration d g closed)" for g closed
    by (simp add: iteration_def obeys_iteration)
  show "thread_ok (False, 0) (request d r)" for r
    by (simp add: request_def neutral_Handler)
qed (rule agree_perform thread_ok_settle; assumption
  | simp add: agree_def init_world_def sum_list_replicate)+

text \<open>No step adds a goroutine of the pool.\<close>

lemma loops_settle: "is_loop (settle d t) \<Longrightarrow> is_loop t"
  by (cases "(d, t)" rule: settle.cases) (auto simp: is_loop_def iteration_def)

lemma loops_advance: "is_loop (advance r t) \<longleftrightarrow> is_loop t"
  by (cases "(r, t)" rule: advance.cases) (auto simp: is_loop_def)

lemma reachable_loops:
  "reachable E d c \<Longrightarrow> length (filter is_loop (procs c)) \<le> length (Run (dep_pool d))"
proof (induction rule: reachable.induct)
  case (start e)
  show ?case
    using length_filter_le [of is_loop "map (\<lambda>g. iteration d g False) (Run (dep_pool d))"]
    by (simp add: init_sys_def)
next
  case (later c c')
  from later.hyps(2) have "length (filter is_loop (procs c')) \<le> length (filter is_loop (procs c))"
  proof cases
    case (perform i o' r w')
    then show ?thesis
      using length_filter_update [OF perform(2), of is_loop "advance r (procs c ! i)"]
      by (simp add: loops_advance)
  next
    case (turn_over i)
    then show ?thesis
      using length_filter_update [OF turn_over(2), of is_loop "settle d (procs c ! i)"] loops_settle [of d "procs c ! i"]
      by (auto split: if_splits)
  qed (simp add: request_def is_loop_def)
  with later.IH show ?case by simp
qed

lemma length_Run: "length (Run p) = Suc (nat (concurrency p))"
  by (simp add: Run_def)

section \<open>The holder of the gate\<close>

lemma one_holder:
  "length (filter fst ms) \<le> 1 \<Longrightarrow> i < length ms \<Longrightarrow> j < length ms \<Longrightarrow> fst (ms ! i) \<Longrightarrow> fst (ms ! j)
    \<Longrightarrow> i = j"
proof (induction ms arbitrary: i j)
  case (Cons a ms)
  have none: "\<not> fst (ms ! k)" if "fst a" "k < length ms" for k
  proof
    assume "fst (ms ! k)"
    with that(2) have "ms ! k \<in> set (filter fst ms)" by simp
    then have "0 < length (filter fst ms)" by (rule length_pos_if_in_set)
    with that(1) Cons.prems(1) show False by simp
  qed
  show ?case
  proof (cases "fst a")
    case True
    with Cons.prems none show ?thesis by (cases i; cases j) auto
  next
    case False
    then have "length (filter fst ms) \<le> 1" using Cons.prems(1) by simp
    with Cons.IH Cons.prems False show ?thesis by (cases i; cases j) auto
  qed
qed simp

lemma posting_holds: "thread_ok m t \<Longrightarrow> next_op t = Some (OPost req tm) \<Longrightarrow> fst m"
  by (cases m; cases "t" rule: next_op.cases) (auto simp: neutral_def)

lemma holder_moves:
  assumes "thread_ok m t" and "fst m"
  shows "(\<exists>req tm. next_op t = Some (OPost req tm)) \<or> next_op t = Some OGateRelease"
proof -
  obtain n where m: "m = (True, n)" using assms(2) by (cases m) simp
  from assms(1) obtain g p where t: "t = Loop g p" and ob: "obeys (True, n) p (False, 0)"
    by (cases t) (auto simp: m)
  from ob obtain o' k where "p = Op o' k" "allowed (True, n) o'" by (cases p) auto
  then show ?thesis by (cases o') (auto simp: t)
qed

text \<open>While the gate is taken, its holder can move.\<close>

lemma holder_exists:
  assumes "counters.holds ms c" and "gate (shared c)"
  shows "\<exists>j o'. j < length (procs c) \<and> next_op (procs c ! j) = Some o' \<and> \<not> blocked E (shared c) o'
    \<and> (o' = OGateRelease \<or> (\<exists>req t. o' = OPost req t))"
proof -
  from assms have ok: "list_all2 thread_ok ms (procs c)" and n: "length (filter fst ms) = 1"
    by (auto simp: counters.holds_def agree_def)
  then have "\<exists>m \<in> set ms. fst m" by (cases "filter fst ms") (auto simp: filter_eq_Cons_iff)
  then obtain j where j: "j < length ms" "fst (ms ! j)" by (auto simp: in_set_conv_nth)
  have "thread_ok (ms ! j) (procs c ! j)" by (rule list_all2_nthD [OF ok j(1)])
  from holder_moves [OF this j(2)] j(1) ok show ?thesis
    by (intro exI [of _ j]) (auto simp: blocked_def list_all2_lengthD)
qed

end
