(* ===== verification/JSON_Strings.thy ===== *)
theory JSON_Strings
  imports JSON_Encode
begin

text \<open>
  Strings: what the encoder escapes is read back, with invalid bytes replaced, and the
  compaction of a raw message keeps what a string in it stands for.
\<close>

declare escape_body.simps [simp]

section \<open>Bytes\<close>

lemma code_less [simp]: "code c < 256"
  by (cases c) (simp add: of_char_def horner_sum_bit_eq_take_bit)

lemma hex_val_hex_digit [simp]: "n < 16 \<Longrightarrow> hex_val (hex_digit n) = Some n"
  by (auto simp: hex_val_def hex_digit_def is_digit_def)

lemma in_ranges_take:
  "in_ranges rs cs \<Longrightarrow> in_ranges rs (take (length rs) cs @ ys)"
  by (induction rs arbitrary: cs) (auto split: list.splits)

lemma in_ranges_length: "in_ranges rs cs \<Longrightarrow> length rs \<le> length cs"
  by (induction rs arbitrary: cs) (auto split: list.splits)

lemma rune_tail_take:
  "rune_tail c cs = k \<Longrightarrow> 0 < k \<Longrightarrow> rune_tail c (take k cs @ ys) = k"
  by (auto simp: rune_tail_def in_ranges_take split: if_splits)

lemma rune_tail_length: "rune_tail c cs \<le> length cs"
  by (simp add: rune_tail_def in_ranges_length)

lemma rune_tail_take_drop:
  "0 < rune_tail c cs \<Longrightarrow> drop (rune_tail c cs) (take (rune_tail c cs) cs @ ys) = ys"
  by (simp add: rune_tail_length)

lemma utf8_values:
  "utf8 0xFFFD = replacement" "utf8 0x2028 = [CHR 0xE2, CHR 0x80, CHR 0xA8]"
  "utf8 0x2029 = [CHR 0xE2, CHR 0x80, CHR 0xA9]"
  by (simp_all add: utf8_def replacement_def char_of_eq_iff)

lemma append_single: "append [c] = Cons c"
  by (rule ext) simp

section \<open>Strings are read back\<close>

lemma hex4_Cons:
  "hex_val a = Some i \<Longrightarrow> hex_val b = Some j \<Longrightarrow> hex_val c = Some k \<Longrightarrow> hex_val d = Some l
    \<Longrightarrow> hex4 (a # b # c # d # r) = Some (16 * (16 * (16 * i + j) + k) + l)"
  unfolding hex4_def by (simp add: numeral_eq_Suc)

lemma unicode_escape_unit:
  assumes "code c < 0x80"
  shows "str_unit (CHR 0x5C) (tl (unicode_escape c) @ X) = Some ([c], 5)"
proof -
  have "hex_val (hex_digit (code c div 16)) = Some (code c div 16)"
    "hex_val (hex_digit (code c mod 16)) = Some (code c mod 16)" using assms by simp_all
  moreover have "hex_val (CHR ''0'') = Some 0" by (simp add: hex_val_def is_digit_def)
  ultimately show ?thesis using assms
    by (simp add: str_unit_def escape_def unicode_escape_def hex4_Cons utf8_def)
qed

lemma str_body_unicode_escape:
  assumes "code c < 0x80"
  shows "str_body (unicode_escape c @ X) = map_option (apfst (Cons c)) (str_body X)"
proof -
  have e: "unicode_escape c @ X = CHR 0x5C # tl (unicode_escape c) @ X"
    by (simp add: unicode_escape_def)
  have "str_body (CHR 0x5C # tl (unicode_escape c) @ X)
      = map_option (apfst (append [c])) (str_body (drop 5 (tl (unicode_escape c) @ X)))"
    using unicode_escape_unit [OF assms] by (intro str_body_unit) simp_all
  moreover have "drop 5 (tl (unicode_escape c) @ X) = X" by (simp add: unicode_escape_def)
  ultimately show ?thesis unfolding e by (simp only: append_single)
qed

lemma str_body_simple_escape:
  "map_of simple_escapes e = Some b
    \<Longrightarrow> str_body (CHR 0x5C # e # X) = map_option (apfst (Cons b)) (str_body X)"
proof -
  assume e: "map_of simple_escapes e = Some b"
  then have "e \<noteq> CHR ''u''" by (auto simp: simple_escapes_def)
  with e have "str_unit (CHR 0x5C) (e # X) = Some ([b], 1)" by (simp add: str_unit_def escape_def)
  from str_body_unit [OF _ this] show ?thesis by (simp add: append_single)
qed

lemma str_body_ascii:
  assumes "code c < 0x80"
  shows "str_body (escape_ascii c @ X) = map_option (apfst (Cons c)) (str_body X)"
proof (cases "c = CHR 0x22 \<or> c = CHR 0x5C \<or> c = CHR 0x08 \<or> c = CHR 0x0C \<or> c = CHR 0x0A
    \<or> c = CHR 0x0D \<or> c = CHR 0x09")
  case True
  then show ?thesis
    by (elim disjE) (simp_all add: escape_ascii_def str_body_simple_escape simple_escapes_def)
next
  case False
  show ?thesis
  proof (cases "code c < 0x20 \<or> html c")
    case True
    then show ?thesis using False by (simp add: escape_ascii_def str_body_unicode_escape assms)
  next
    case plain: False
    then have "str_unit c X = Some ([c], 0)" using False assms by (simp add: str_unit_def)
    with False plain show ?thesis
      by (simp add: escape_ascii_def str_body_unit [of c X "[c]" 0] append_single)
  qed
qed

lemma line_separator_cases:
  assumes "line_separator c cs = Some x"
  obtains ds where "c = CHR 0xE2" and "x = CHR ''8''" and "cs = CHR 0x80 # CHR 0xA8 # ds"
  | ds where "c = CHR 0xE2" and "x = CHR ''9''" and "cs = CHR 0x80 # CHR 0xA9 # ds"
proof -
  have "take 2 cs = [a, b] \<Longrightarrow> \<exists>ds. cs = a # b # ds" for a b
    by (metis append_Cons append_Nil append_take_drop_id)
  with assms that show thesis by (auto simp: line_separator_def split: if_splits)
qed

lemma separator_escape:
  assumes "line_separator c cs = Some x"
  shows "str_body (CHR 0x5C # ''u202'' @ x # X)
      = map_option (apfst (append (c # take 2 cs))) (str_body X)" and "rune_tail c cs = 2"
proof -
  have "str_unit (CHR 0x5C) (''u202'' @ x # X) = Some (c # take 2 cs, 5)"
    using assms
    by (rule line_separator_cases)
      (simp_all add: str_unit_def escape_def hex4_Cons hex_val_def is_digit_def utf8_values)
  from str_body_unit [OF _ this] show "str_body (CHR 0x5C # ''u202'' @ x # X)
      = map_option (apfst (append (c # take 2 cs))) (str_body X)" by simp
  show "rune_tail c cs = 2"
    using assms by (rule line_separator_cases) (simp_all add: rune_tail_def cont_ranges_def)
qed

lemma str_body_replacement:
  "str_body (CHR 0x5C # ''ufffd'' @ X) = map_option (apfst (append replacement)) (str_body X)"
proof -
  have "str_unit (CHR 0x5C) (''ufffd'' @ X) = Some (replacement, 5)"
    by (simp add: str_unit_def escape_def hex4_Cons hex_val_def is_digit_def utf8_values)
  from str_body_unit [OF _ this] show ?thesis by simp
qed

lemma str_body_rune:
  assumes "0 < rune_tail c cs" and "\<not> code c < 0x80"
  shows "str_body (c # take (rune_tail c cs) cs @ X)
    = map_option (apfst (append (c # take (rune_tail c cs) cs))) (str_body X)"
proof -
  let ?k = "rune_tail c cs"
  have "rune_tail c (take ?k cs @ X) = ?k" using assms(1) by (simp add: rune_tail_take)
  moreover have "?k \<le> length cs" by (rule rune_tail_length)
  ultimately have "str_unit c (take ?k cs @ X) = Some (c # take ?k cs, ?k)"
    using assms by (auto simp: str_unit_def)
  moreover have "c \<noteq> CHR 0x22" using assms(2) by auto
  ultimately show ?thesis using assms(1)
    by (simp add: str_body_unit rune_tail_length)
qed

lemma apfst_append: "map_option (apfst (append xs)) (map_option (apfst (append ys)) z)
    = map_option (apfst (append (xs @ ys))) z"
  by (cases z) (auto simp: apfst_def)

lemma escape_body_read:
  "str_body (escape_body s @ CHR 0x22 # r) = Some (valid_utf8 s, r)"
proof (induction s rule: escape_body.induct)
  case (2 c cs)
  show ?case
  proof (cases "code c < 0x80")
    case True
    with 2 show ?thesis by (simp add: escape_unit_def str_body_ascii)
  next
    case high: False
    show ?thesis
    proof (cases "rune_tail c cs = 0")
      case True
      with 2 high show ?thesis
        using str_body_replacement by (simp add: escape_unit_def)
    next
      case rune: False
      show ?thesis
      proof (cases "line_separator c cs")
        case None
        with 2 high rune show ?thesis
          using str_body_rune [of c cs] by (simp add: escape_unit_def)
      next
        case (Some x)
        with 2 high rune separator_escape [OF Some] show ?thesis by (simp add: escape_unit_def)
      qed
    qed
  qed
qed simp

section \<open>Compaction keeps strings\<close>

lemma compact_Nil [simp]: "compact q [] = []"
  by (simp add: compact.simps [of q "[]"])

lemma compact_html: "html c \<Longrightarrow> compact q (c # cs) = unicode_escape c @ compact q cs"
  by (simp add: compact.simps [of q "_ # _"])

lemma compact_separator:
  "line_separator c cs = Some x
    \<Longrightarrow> compact q (c # cs) = CHR 0x5C # ''u202'' @ x # compact q (drop 2 cs)"
  by (auto simp: compact.simps [of q "_ # _"] html_def line_separator_def split: if_splits)

lemma compact_string_escape: "compact True (CHR 0x5C # e # ds) = CHR 0x5C # e # compact True ds"
  by (simp add: compact.simps [of True "CHR 0x5C # _"] html_def line_separator_def)

lemma compact_string_plain:
  "\<not> html c \<Longrightarrow> line_separator c cs = None \<Longrightarrow> c \<noteq> CHR 0x5C
    \<Longrightarrow> compact True (c # cs) = c # compact (c \<noteq> CHR 0x22) cs"
  by (simp add: compact.simps [of True "_ # _"])

lemma compact_plain:
  "\<not> html c \<Longrightarrow> code c < 0x80 \<Longrightarrow> \<not> json_space c
    \<Longrightarrow> compact False (c # cs) = c # compact (c = CHR 0x22) cs"
  by (auto simp: compact.simps [of False "_ # _"] line_separator_def)

lemma compact_skip: "compact False (skip_ws s) = compact False s"
proof (induction s)
  case (Cons c s)
  show ?case
  proof (cases "json_space c")
    case True
    then have "compact False (c # s) = compact False s"
      by (auto simp: compact.simps [of False "_ # _"] json_space_def html_def line_separator_def)
    with Cons True show ?thesis by simp
  qed simp
qed simp

text \<open>Ranges of continuation bytes.\<close>

definition cont_only :: "(nat \<times> nat) list \<Rightarrow> bool" where
  "cont_only rs \<longleftrightarrow> (\<forall>r \<in> set rs. 0x80 \<le> fst r \<and> snd r \<le> 0xBF)"

lemma cont_ranges_only: "cont_only (cont_ranges c)"
  by (simp add: cont_only_def cont_ranges_def)

lemma compact_cont: "0x80 \<le> code c \<Longrightarrow> code c \<le> 0xBF \<Longrightarrow> compact True (c # cs) = c # compact True cs"
proof -
  assume "0x80 \<le> code c" "code c \<le> 0xBF"
  then have "\<not> html c" "line_separator c cs = None" "c \<noteq> CHR 0x5C" "c \<noteq> CHR 0x22"
    by (auto simp: html_def line_separator_def)
  then show ?thesis by (simp add: compact_string_plain)
qed

lemma compact_head:
  assumes "\<not> (0x80 \<le> code c \<and> code c \<le> 0xBF)"
  obtains x xs where "compact True (c # cs) = x # xs" and "x = c \<or> x = CHR 0x5C"
proof -
  consider "html c" | y where "line_separator c cs = Some y"
    | "\<not> html c" "line_separator c cs = None" by (cases "line_separator c cs") auto
  then show thesis
  proof cases
    case 1
    with that show ?thesis by (simp add: compact_html unicode_escape_def)
  next
    case 2
    with that show ?thesis by (simp add: compact_separator)
  next
    case 3
    show ?thesis
    proof (cases "c = CHR 0x5C")
      case True
      with that show ?thesis
        by (cases cs) (auto simp: compact_string_escape compact.simps [of True "[_]"] html_def
            line_separator_def)
    qed (use 3 that in \<open>simp add: compact_string_plain\<close>)
  qed
qed

lemma in_ranges_compact: "cont_only rs \<Longrightarrow> in_ranges rs (compact True cs) \<longleftrightarrow> in_ranges rs cs"
proof (induction rs arbitrary: cs)
  case (Cons r rs)
  then have r: "0x80 \<le> fst r" "snd r \<le> 0xBF" and rs: "cont_only rs" by (simp_all add: cont_only_def)
  show ?case
  proof (cases cs)
    case (Cons c ds)
    show ?thesis
    proof (cases "0x80 \<le> code c \<and> code c \<le> 0xBF")
      case True
      with Cons Cons.IH [OF rs] show ?thesis by (simp add: compact_cont)
    next
      case False
      then obtain x xs where "compact True (c # ds) = x # xs" "x = c \<or> x = CHR 0x5C"
        by (rule compact_head)
      with False r Cons show ?thesis by auto
    qed
  qed simp
qed simp

lemma compact_rune:
  "cont_only rs \<Longrightarrow> in_ranges rs cs
    \<Longrightarrow> compact True cs = take (length rs) cs @ compact True (drop (length rs) cs)"
proof (induction rs arbitrary: cs)
  case (Cons r rs)
  then obtain c ds where cs: "cs = c # ds" and c: "fst r \<le> code c" "code c \<le> snd r"
      and ds: "in_ranges rs ds" by (auto split: list.splits)
  moreover have "0x80 \<le> fst r" "snd r \<le> 0xBF" "cont_only rs"
    using Cons.prems by (simp_all add: cont_only_def)
  ultimately show ?case using Cons.IH by (simp add: compact_cont)
qed simp

text \<open>What a quote cuts off does not matter.\<close>

lemma in_ranges_quote:
  "cont_only rs \<Longrightarrow> CHR 0x22 \<in> set u \<Longrightarrow> in_ranges rs (u @ r) \<longleftrightarrow> in_ranges rs (u @ z)"
proof (induction rs arbitrary: u)
  case (Cons q rs)
  obtain c v where u: "u = c # v" using Cons.prems(2) by (cases u) auto
  have q: "0x80 \<le> fst q" and rs: "cont_only rs" using Cons.prems(1) by (simp_all add: cont_only_def)
  show ?case
  proof (cases "c = CHR 0x22")
    case True
    with q show ?thesis by (simp add: u)
  next
    case False
    with Cons.prems(2) u have "CHR 0x22 \<in> set v" by simp
    with Cons.IH [OF rs] show ?thesis by (simp add: u)
  qed
qed simp

lemma rune_tail_string:
  assumes "compact True cs = u @ z" and "CHR 0x22 \<in> set u"
  shows "rune_tail c (u @ r) = rune_tail c cs"
  using in_ranges_quote [OF cont_ranges_only assms(2), of c r z]
    in_ranges_compact [OF cont_ranges_only, of c cs]
  by (simp add: rune_tail_def assms(1))

lemma hex_digits_quote:
  "CHR 0x22 \<in> set u \<Longrightarrow> hex_digits n acc (u @ r) = hex_digits n acc (u @ z)"
proof (induction n arbitrary: u acc)
  case (Suc n)
  have "hex_val CHR 0x22 = None" by (simp add: hex_val_def is_digit_def)
  with Suc show ?case by (cases u) (auto split: option.splits)
qed simp

lemma hex_val_plain:
  "hex_val c = Some h \<Longrightarrow> \<not> html c \<and> line_separator c cs = None \<and> c \<noteq> CHR 0x5C \<and> c \<noteq> CHR 0x22
    \<and> \<not> json_space c"
  by (auto simp: hex_val_def is_digit_def html_def line_separator_def json_space_def split: if_splits)

lemma compact_hex: "hex_val c = Some h \<Longrightarrow> compact True (c # cs) = c # compact True cs"
  using hex_val_plain [of c h cs] by (simp add: compact_string_plain)

lemma hex_digits_compact: "hex_digits n acc (compact True cs) = hex_digits n acc cs"
proof (induction n arbitrary: acc cs)
  case (Suc n)
  show ?case
  proof (cases cs)
    case (Cons c ds)
    show ?thesis
    proof (cases "hex_val c")
      case None
      have "\<not> (0x80 \<le> code c \<and> code c \<le> 0xBF) \<or> (0x80 \<le> code c \<and> code c \<le> 0xBF)" by simp
      then obtain x xs where "compact True (c # ds) = x # xs" "x = c \<or> x = CHR 0x5C"
        using compact_head [of c ds thesis] compact_cont [of c ds] by metis
      moreover have "hex_val CHR 0x5C = None" by (simp add: hex_val_def is_digit_def)
      ultimately show ?thesis using None Cons by auto
    next
      case (Some h)
      with Cons show ?thesis by (simp add: compact_hex [OF Some] Suc.IH)
    qed
  qed simp
qed simp

lemma hex4_compact: "hex4 (compact True cs) = hex4 cs"
  by (simp add: hex4_def hex_digits_compact)

lemma hex4_Some:
  assumes "hex4 cs = Some n"
  obtains a b c d ds where "cs = a # b # c # d # ds"
    and "compact True cs = a # b # c # d # compact True ds"
    and "\<And>r. hex4 (a # b # c # d # r) = Some n" and "CHR 0x22 \<notin> {a, b, c, d}"
proof -
  from assms obtain a b c d ds i j k l where cs: "cs = a # b # c # d # ds"
    and h: "hex_val a = Some i" "hex_val b = Some j" "hex_val c = Some k" "hex_val d = Some l"
    unfolding hex4_def by (auto simp: numeral_eq_Suc split: list.splits option.splits)
  show thesis
  proof (rule that [OF cs])
    show "compact True cs = a # b # c # d # compact True ds"
      by (simp add: cs compact_hex [OF h(1)] compact_hex [OF h(2)] compact_hex [OF h(3)]
          compact_hex [OF h(4)])
    show "hex4 (a # b # c # d # r) = Some n" for r
      using assms hex4_Cons [OF h, of ds] hex4_Cons [OF h, of r] by (simp add: cs)
    show "CHR 0x22 \<notin> {a, b, c, d}"
      using hex_val_plain [OF h(1), of "[]"] hex_val_plain [OF h(2), of "[]"]
        hex_val_plain [OF h(3), of "[]"] hex_val_plain [OF h(4), of "[]"] by auto
  qed
qed

lemma take2: "take 2 (x # cs) = [a, b] \<longleftrightarrow> x = a \<and> (\<exists>ds. cs = b # ds)"
  by (cases cs) auto

lemma low_surrogate_quote:
  assumes "CHR 0x22 \<in> set u"
  shows "low_surrogate n (u @ r) = low_surrogate n (u @ z)"
proof -
  obtain x v where u: "u = x # v" using assms by (cases u) auto
  show ?thesis
  proof (cases v)
    case Nil
    with assms u have "x = CHR 0x22" by simp
    with Nil u show ?thesis by (simp add: low_surrogate_def take2)
  next
    case (Cons y w)
    show ?thesis
    proof (cases "CHR 0x22 \<in> set w")
      case True
      then have "hex4 (w @ r) = hex4 (w @ z)" unfolding hex4_def by (rule hex_digits_quote)
      then show ?thesis by (simp add: u Cons low_surrogate_def)
    next
      case False
      with assms u Cons show ?thesis by (auto simp: low_surrogate_def take2)
    qed
  qed
qed

lemma low_surrogate_compact: "low_surrogate n (compact True cs) = low_surrogate n cs"
proof (cases cs)
  case (Cons c ds)
  consider "html c" | x where "line_separator c ds = Some x" | "c = CHR 0x5C"
    | "\<not> html c" "line_separator c ds = None" "c \<noteq> CHR 0x5C" by (cases "line_separator c ds") auto
  then show ?thesis
  proof cases
    case 1
    then have c: "code c < 0x80" and bs: "c \<noteq> CHR 0x5C" by (auto simp: html_def)
    have "hex_val (hex_digit (code c div 16)) = Some (code c div 16)"
      "hex_val (hex_digit (code c mod 16)) = Some (code c mod 16)" using c by simp_all
    moreover have "hex_val (CHR ''0'') = Some 0" by (simp add: hex_val_def is_digit_def)
    ultimately have "hex4 (drop 2 (unicode_escape c) @ r) = Some (16 * (code c div 16) + code c mod 16)" for r
      by (simp add: unicode_escape_def hex4_Cons)
    with 1 Cons bs c show ?thesis by (auto simp: low_surrogate_def compact_html take2 unicode_escape_def)
  next
    case 2
    then have "x = CHR ''8'' \<or> x = CHR ''9''" "c = CHR 0xE2"
      by (auto simp: line_separator_def split: if_splits)
    moreover have "hex4 (''202'' @ x # r) = Some (0x2020 + (code x - 48))" for r
      using calculation(1) by (auto simp: hex4_Cons hex_val_def is_digit_def)
    ultimately show ?thesis using 2 Cons
      by (auto simp: low_surrogate_def compact_separator take2)
  next
    case 3
    show ?thesis
    proof (cases ds)
      case Nil
      with 3 Cons have "compact True cs = [CHR 0x5C]"
        by (simp add: compact.simps [of True "[_]"] html_def line_separator_def)
      with Nil 3 Cons show ?thesis by simp
    next
      case (Cons e es)
      with 3 \<open>cs = c # ds\<close> show ?thesis
        by (simp add: compact_string_escape low_surrogate_def hex4_compact)
    qed
  next
    case 4
    with Cons show ?thesis by (simp add: compact_string_plain low_surrogate_def take2)
  qed
qed simp

lemma low_surrogate_string:
  "compact True cs = u @ z \<Longrightarrow> CHR 0x22 \<in> set u \<Longrightarrow> low_surrogate n (u @ r) = low_surrogate n cs"
  using low_surrogate_quote [of u n r z] low_surrogate_compact [of n cs] by simp

text \<open>
  One character: \<open>w\<close> is its compacted form, and it is read as the same bytes before the
  rest \<open>u\<close> of the compacted string.
\<close>

lemma compact_unicode:
  assumes e: "escape (CHR ''u'' # ds) = Some (bs, k)"
    and rest: "compact True (drop k (CHR ''u'' # ds)) = u @ z" and q: "CHR 0x22 \<in> set u"
  shows "\<exists>w. compact True (CHR 0x5C # CHR ''u'' # ds) = w @ compact True (drop k (CHR ''u'' # ds))
    \<and> (\<forall>r. str_body (w @ u @ r) = map_option (apfst (append bs)) (str_body (u @ r)))"
proof -
  from e obtain n where n: "hex4 ds = Some n" by (auto simp: escape_def split: option.splits)
  then obtain a b c d es where ds: "ds = a # b # c # d # es"
      and co: "compact True ds = a # b # c # d # compact True es"
      and h: "\<And>r. hex4 (a # b # c # d # r) = Some n" and nq: "CHR 0x22 \<notin> {a, b, c, d}"
    by (rule hex4_Some) (use that in blast)
  have comp: "compact True (CHR 0x5C # CHR ''u'' # ds) = CHR 0x5C # CHR ''u'' # a # b # c # d # compact True es"
    by (simp add: compact_string_escape co)
  show ?thesis
  proof (cases "0xD800 \<le> n \<and> n < 0xE000 \<and> low_surrogate n es \<noteq> None")
    case False
    with e n ds have k: "k = 5" and bs: "bs = (if 0xD800 \<le> n \<and> n < 0xE000 then replacement else utf8 n)"
      by (auto simp: escape_def split: if_splits option.splits)
    have es: "compact True es = u @ z" using rest by (simp add: k ds)
    have "low_surrogate n (u @ r) = low_surrogate n es" for r by (rule low_surrogate_string [OF es q])
    with False h bs have "str_unit (CHR 0x5C) (CHR ''u'' # a # b # c # d # u @ r) = Some (bs, 5)" for r
      by (auto simp: str_unit_def escape_def)
    from str_body_unit [OF _ this]
    have "str_body (CHR 0x5C # CHR ''u'' # a # b # c # d # u @ r)
        = map_option (apfst (append bs)) (str_body (u @ r))" for r by simp
    with comp show ?thesis
      by (intro exI [of _ "[CHR 0x5C, CHR ''u'', a, b, c, d]"]) (simp add: k ds)
  next
    case True
    then obtain m where m: "low_surrogate n es = Some m" and sur: "0xD800 \<le> n" "n < 0xE000" by auto
    with e n ds have k: "k = 11" and bs: "bs = utf8 m" by (auto simp: escape_def)
    from m obtain fs lo where es: "es = CHR 0x5C # CHR ''u'' # fs" and lo: "hex4 fs = Some lo"
      and hi: "n < 0xDC00" and r: "0xDC00 \<le> lo" "lo < 0xE000"
      and mv: "m = 0x10000 + (n - 0xD800) * 1024 + (lo - 0xDC00)"
      by (cases es; cases "tl es") (auto simp: low_surrogate_def split: if_splits option.splits)
    from lo obtain a' b' c' d' gs where fs: "fs = a' # b' # c' # d' # gs"
      and co': "compact True fs = a' # b' # c' # d' # compact True gs"
      and h': "\<And>r. hex4 (a' # b' # c' # d' # r) = Some lo"
      by (rule hex4_Some) (use that in blast)
    have "str_unit (CHR 0x5C)
        (CHR ''u'' # a # b # c # d # CHR 0x5C # CHR ''u'' # a' # b' # c' # d' # u @ r) = Some (bs, 11)" for r
      using sur hi r h h' by (simp add: str_unit_def escape_def low_surrogate_def take2 bs mv)
    from str_body_unit [OF _ this]
    have "str_body (CHR 0x5C # CHR ''u'' # a # b # c # d # CHR 0x5C # CHR ''u'' # a' # b' # c' # d' # u @ r)
        = map_option (apfst (append bs)) (str_body (u @ r))" for r by simp
    with comp co' show ?thesis
      by (intro exI [of _ "[CHR 0x5C, CHR ''u'', a, b, c, d, CHR 0x5C, CHR ''u'', a', b', c', d']"])
        (simp add: k ds es fs compact_string_escape)
  qed
qed

lemma rune_no_separator: "rune_tail c cs = 0 \<Longrightarrow> line_separator c cs = None"
  using separator_escape(2) [of c cs] by (cases "line_separator c cs") auto

lemma high_not_html: "\<not> code c < 0x80 \<Longrightarrow> \<not> html c \<and> c \<noteq> CHR 0x5C \<and> c \<noteq> CHR 0x22"
  by (auto simp: html_def)

lemma compact_unit:
  assumes s: "str_unit c cs = Some (bs, k)" and c: "c \<noteq> CHR 0x22"
    and rest: "compact True (drop k cs) = u @ z" and q: "CHR 0x22 \<in> set u"
  shows "\<exists>w. compact True (c # cs) = w @ compact True (drop k cs)
    \<and> (\<forall>r. str_body (w @ u @ r) = map_option (apfst (append bs)) (str_body (u @ r)))"
proof -
  consider "c = CHR 0x5C" | "c \<noteq> CHR 0x5C" "code c < 0x80"
    | "\<not> code c < 0x80" "rune_tail c cs = 0" | "\<not> code c < 0x80" "0 < rune_tail c cs" by auto
  then show ?thesis
  proof cases
    case 1
    with s obtain e ds where cs: "cs = e # ds" by (auto simp: str_unit_def escape_def split: list.splits)
    show ?thesis
    proof (cases "e = CHR ''u''")
      case True
      with s 1 cs have "escape (CHR ''u'' # ds) = Some (bs, k)" by (simp add: str_unit_def)
      from compact_unicode [OF this _ q] rest show ?thesis by (simp add: 1 cs True)
    next
      case False
      with s 1 cs obtain b where b: "map_of simple_escapes e = Some b" "bs = [b]" "k = 1"
        by (auto simp: str_unit_def escape_def)
      then show ?thesis
        by (intro exI [of _ "[CHR 0x5C, e]"])
          (simp add: 1 cs compact_string_escape str_body_simple_escape append_single)
    qed
  next
    case 2
    with s have b: "bs = [c]" "k = 0" by (auto simp: str_unit_def split: if_splits)
    have sep: "line_separator c cs = None" using 2 by (auto simp: line_separator_def)
    show ?thesis
    proof (cases "html c")
      case True
      with b 2 show ?thesis
        by (intro exI [of _ "unicode_escape c"])
          (simp add: compact_html str_body_unicode_escape append_single)
    next
      case False
      have "str_unit c X = Some ([c], 0)" for X using s 2 by (simp add: str_unit_def split: if_splits)
      from str_body_unit [OF c this] False sep 2 b c show ?thesis
        by (intro exI [of _ "[c]"]) (simp add: compact_string_plain)
    qed
  next
    case 3
    note hi = high_not_html [OF 3(1)]
    from 3 s hi have b: "bs = replacement" "k = 0" by (auto simp: str_unit_def split: if_splits)
    have "rune_tail c (u @ r) = 0" for r
      using rune_tail_string [of cs u z c r] rest q 3 b by simp
    with 3 hi have "str_unit c (u @ r) = Some (replacement, 0)" for r
      by (auto simp: str_unit_def)
    from str_body_unit [OF c this] 3 hi b show ?thesis
      by (intro exI [of _ "[c]"]) (simp add: compact_string_plain rune_no_separator)
  next
    case 4
    note hi = high_not_html [OF 4(1)]
    from 4 s hi have b: "bs = c # take k cs" "k = rune_tail c cs"
      by (auto simp: str_unit_def split: if_splits)
    show ?thesis
    proof (cases "line_separator c cs")
      case None
      have "in_ranges (cont_ranges c) cs" "rune_tail c cs = length (cont_ranges c)"
        using 4 by (auto simp: rune_tail_def split: if_splits)
      then have "compact True cs = take k cs @ compact True (drop k cs)"
        using compact_rune [OF cont_ranges_only] b(2) by simp
      with None hi b str_body_rune [OF 4(2,1)] show ?thesis
        by (intro exI [of _ "c # take k cs"]) (simp add: compact_string_plain)
    next
      case (Some x)
      note sp = separator_escape [OF Some]
      with b have "k = 2" by simp
      with sp Some b show ?thesis
        by (intro exI [of _ "CHR 0x5C # ''u202'' @ [x]"]) (simp add: compact_separator)
    qed
  qed
qed

lemma compact_string:
  "str_body s = Some (x, t)
    \<Longrightarrow> \<exists>u. compact True s = u @ compact False t \<and> CHR 0x22 \<in> set u
      \<and> (\<forall>r. str_body (u @ r) = Some (x, r))"
proof (induction s arbitrary: x rule: str_body.induct)
  case (1 s)
  from "1.prems" obtain c cs where s: "s = c # cs" by (cases s) simp_all
  show ?case
  proof (cases "c = CHR 0x22")
    case True
    with "1.prems" s have "x = []" "t = cs" by simp_all
    then show ?thesis
      by (intro exI [of _ "[CHR 0x22]"]) (simp add: s True compact_string_plain html_def line_separator_def)
  next
    case False
    with "1.prems" s obtain bs k y where u: "str_unit c cs = Some (bs, k)"
        "str_body (drop k cs) = Some (y, t)" and x: "x = bs @ y"
      by (auto simp: str_body.simps [of "_ # _"] split: option.splits)
    from "1.IH" [OF s False u(1) refl u(2)] obtain v where v: "compact True (drop k cs) = v @ compact False t"
      "CHR 0x22 \<in> set v" "\<forall>r. str_body (v @ r) = Some (y, r)" by blast
    from compact_unit [OF u(1) False v(1,2)] obtain w
      where "compact True (c # cs) = w @ compact True (drop k cs)"
        "\<forall>r. str_body (w @ v @ r) = map_option (apfst (append bs)) (str_body (v @ r))" by blast
    with v show ?thesis by (intro exI [of _ "w @ v"]) (simp add: s x)
  qed
qed

declare escape_body.simps [simp del]

end
