(* ===== verification/JSON_Numbers.thy ===== *)
theory JSON_Numbers
  imports JSON_Encode
begin

text \<open>Numbers: what the parser takes as a number does not depend on what follows it, and a
  printed integer is read back.\<close>

section \<open>Numbers are read back\<close>

definition no_digit :: "string \<Rightarrow> bool" where
  "no_digit r \<longleftrightarrow> (case r of [] \<Rightarrow> True | c # cs \<Rightarrow> \<not> is_digit c)"

definition num_char :: "char \<Rightarrow> bool" where
  "num_char c \<longleftrightarrow> is_digit c \<or> c \<in> {CHR ''-'', CHR ''+'', CHR ''.'', CHR ''e'', CHR ''E''}"

definition stops :: "string \<Rightarrow> bool" where
  "stops r \<longleftrightarrow> (case r of [] \<Rightarrow> True | c # cs \<Rightarrow> \<not> num_char c)"

text \<open>The part \<open>p\<close> takes \<open>a\<close> whenever the input goes on with a rest in \<open>R\<close>.\<close>

definition takes :: "(string \<Rightarrow> (string \<times> string) option) \<Rightarrow> string \<Rightarrow> (string \<Rightarrow> bool) \<Rightarrow> bool" where
  "takes p a R \<longleftrightarrow> list_all num_char a \<and> (\<forall>r. R r \<longrightarrow> p (a @ r) = Some (a, r))"

lemma takesD: "takes p a R \<Longrightarrow> R r \<Longrightarrow> p (a @ r) = Some (a, r)"
  by (simp add: takes_def)

lemma digit_chars [simp]:
  "\<not> is_digit CHR ''-''" "\<not> is_digit CHR ''+''" "\<not> is_digit CHR ''.''" "\<not> is_digit CHR ''e''"
  "\<not> is_digit CHR ''E''"
  by (simp_all add: is_digit_def)

lemma takes_digits:
  assumes "list_all is_digit ds" and "ds \<noteq> []"
  shows "takes digits ds no_digit"
proof -
  have "takeWhile is_digit (ds @ r) = ds" if "no_digit r" for r
    using assms(1) that
    by (auto simp: list_all_iff takeWhile_append no_digit_def split: list.splits)
  with assms show ?thesis by (simp add: takes_def digits_def num_char_def list_all_iff)
qed

lemma digits_Some:
  assumes "digits s = Some (ds, r)"
  shows "s = ds @ r" and "list_all is_digit ds" and "ds \<noteq> []"
proof -
  have ds: "ds = takeWhile is_digit s" "ds \<noteq> []" "r = drop (length ds) s"
    using assms by (auto simp: digits_def Let_def split: if_splits)
  show "s = ds @ r" by (metis ds(1,3) append_take_drop_id takeWhile_eq_take)
  show "list_all is_digit ds" unfolding ds(1) by (auto simp: list_all_iff dest: set_takeWhileD)
  show "ds \<noteq> []" by (rule ds(2))
qed

lemma int_part_Some:
  assumes "int_part s = Some (a, r)"
  shows "s = a @ r" and "a \<noteq> []" and "list_all is_digit a" and "takes int_part a no_digit"
proof -
  have *: "s = a @ r \<and> a \<noteq> [] \<and> list_all is_digit a \<and> takes int_part a no_digit"
  proof (cases s)
    case (Cons c cs)
    show ?thesis
    proof (cases "c = CHR ''0''")
      case True
      with assms Cons show ?thesis
        by (auto simp: int_part_def takes_def num_char_def is_digit_def)
    next
      case False
      with assms Cons have d: "digits s = Some (a, r)" by (simp add: int_part_def)
      note ds = digits_Some [OF d]
      with Cons obtain as where a: "a = c # as" by (cases a) auto
      have "int_part (a @ r') = digits (a @ r')" for r' using False by (simp add: a int_part_def)
      with ds takes_digits [OF ds(2,3)] show ?thesis by (simp add: takes_def)
    qed
  qed (use assms in \<open>simp add: int_part_def\<close>)
  then show "s = a @ r" and "a \<noteq> []" and "list_all is_digit a" and "takes int_part a no_digit" by auto
qed

lemma takes_sign: "num_char c \<Longrightarrow> (\<And>r. p (c # r) = map_option (apfst (Cons c)) (q r)) \<Longrightarrow> takes q a R
    \<Longrightarrow> takes p (c # a) R"
  by (simp add: takes_def)

definition frac_next :: "string \<Rightarrow> bool" where
  "frac_next r \<longleftrightarrow> (case r of [] \<Rightarrow> True | c # cs \<Rightarrow> \<not> is_digit c \<and> c \<noteq> CHR ''.'')"

lemma frac_part_Some:
  assumes "frac_part s = Some (a, r)"
  shows "s = a @ r" and "a = [] \<or> hd a = CHR ''.''" and "takes frac_part a frac_next"
proof -
  have nil: "takes frac_part [] frac_next"
    by (auto simp: takes_def frac_part_def frac_next_def split: list.splits)
  have *: "s = a @ r \<and> (a = [] \<or> hd a = CHR ''.'') \<and> takes frac_part a frac_next"
  proof (cases "s \<noteq> [] \<and> hd s = CHR ''.''")
    case True
    then obtain cs where s: "s = CHR ''.'' # cs" by (cases s) auto
    with assms obtain ds where d: "digits cs = Some (ds, r)" and a: "a = CHR ''.'' # ds"
      by (auto simp: frac_part_def)
    have "takes digits ds frac_next"
      using takes_digits [OF digits_Some(2,3) [OF d]]
      by (auto simp: takes_def frac_next_def no_digit_def split: list.splits)
    then have "takes frac_part a frac_next"
      unfolding a by (rule takes_sign [rotated -1]) (simp_all add: num_char_def frac_part_def)
    with digits_Some(1) [OF d] show ?thesis by (simp add: s a)
  next
    case False
    with assms have "a = []" "r = s" by (auto simp: frac_part_def split: list.splits if_splits)
    with nil show ?thesis by simp
  qed
  then show "s = a @ r" and "a = [] \<or> hd a = CHR ''.''" and "takes frac_part a frac_next" by auto
qed

lemma exp_part_Some:
  assumes "exp_part s = Some (a, r)"
  shows "s = a @ r" and "a = [] \<or> hd a = CHR ''e'' \<or> hd a = CHR ''E''" and "takes exp_part a stops"
proof -
  have nil: "takes exp_part [] stops"
    by (auto simp: takes_def exp_part_def stops_def num_char_def split: list.splits)
  have dig: "takes digits ds stops" if "digits t = Some (ds, r')" for t ds r'
    using takes_digits [OF digits_Some(2,3) [OF that]]
    by (auto simp: takes_def stops_def no_digit_def num_char_def split: list.splits)
  have *: "s = a @ r \<and> (a = [] \<or> hd a = CHR ''e'' \<or> hd a = CHR ''E'') \<and> takes exp_part a stops"
  proof (cases "s \<noteq> [] \<and> (hd s = CHR ''e'' \<or> hd s = CHR ''E'')")
    case True
    then obtain c cs where s: "s = c # cs" and c: "c = CHR ''e'' \<or> c = CHR ''E''" by (cases s) auto
    with assms obtain g ds where cs: "cs = g # ds" by (auto simp: exp_part_def split: list.splits)
    show ?thesis
    proof (cases "g = CHR ''+'' \<or> g = CHR ''-''")
      case True
      with assms s c cs obtain x where d: "digits ds = Some (x, r)" and a: "a = c # g # x"
        by (auto simp: exp_part_def)
      have "takes exp_part a stops"
        using True c dig [OF d] by (auto simp: a takes_def exp_part_def num_char_def)
      with digits_Some(1) [OF d] c show ?thesis by (simp add: s cs a)
    next
      case False
      with assms s c cs obtain x where d: "digits cs = Some (x, r)" and a: "a = c # x"
        by (auto simp: exp_part_def)
      from digits_Some [OF d] cs obtain xs where x: "x = g # xs" by (cases x) auto
      have "exp_part (c # x @ r') = map_option (apfst (Cons c)) (digits (x @ r'))" for r'
        using False c by (auto simp: exp_part_def x)
      with dig [OF d] c have "takes exp_part a stops"
        by (auto simp: a takes_def num_char_def)
      with digits_Some(1) [OF d] c show ?thesis by (simp add: s a)
    qed
  next
    case False
    with assms have "a = []" "r = s" by (auto simp: exp_part_def split: list.splits if_splits)
    with nil show ?thesis by simp
  qed
  then show "s = a @ r" and "a = [] \<or> hd a = CHR ''e'' \<or> hd a = CHR ''E''"
    and "takes exp_part a stops" by auto
qed

lemma unsigned_number:
  assumes "int_part s = Some (a, s2)" and "frac_part s2 = Some (b, s3)" and "exp_part s3 = Some (e, r)"
    and "stops r'"
  shows "int_part ((a @ b @ e) @ r') = Some (a, b @ e @ r')"
    and "frac_part (b @ e @ r') = Some (b, e @ r')" and "exp_part (e @ r') = Some (e, r')"
proof -
  note i = int_part_Some [OF assms(1)] and f = frac_part_Some [OF assms(2)]
    and x = exp_part_Some [OF assms(3)]
  have "frac_next (e @ r')"
    using x(2) assms(4) by (cases e) (auto simp: frac_next_def stops_def num_char_def split: list.splits)
  then show "frac_part (b @ e @ r') = Some (b, e @ r')" by (rule takesD [OF f(3)])
  have "no_digit (b @ e @ r')"
    using f(2) \<open>frac_next (e @ r')\<close> by (cases b) (auto simp: no_digit_def frac_next_def split: list.splits)
  then show "int_part ((a @ b @ e) @ r') = Some (a, b @ e @ r')" using takesD [OF i(4)] by simp
  show "exp_part (e @ r') = Some (e, r')" using assms(4) by (rule takesD [OF x(3)])
qed

lemma number_Some:
  assumes "number s = Some (n, r)"
  shows "s = n @ r" and "n \<noteq> []" and "is_digit (hd n) \<or> hd n = CHR ''-''" and "takes number n stops"
proof -
  obtain sg s1 where sg: "(case s of [] \<Rightarrow> ([], s) | c # cs \<Rightarrow> if c = CHR ''-'' then ([c], cs) else ([], s))
      = (sg, s1)" by (cases "case s of [] \<Rightarrow> ([], s) | c # cs \<Rightarrow> if c = CHR ''-'' then ([c], cs) else ([], s)")
  with assms obtain a s2 b s3 e where p: "int_part s1 = Some (a, s2)" "frac_part s2 = Some (b, s3)"
      "exp_part s3 = Some (e, r)" and n: "n = sg @ a @ b @ e"
    by (auto simp: number_def split: option.splits)
  note i = int_part_Some [OF p(1)] and f = frac_part_Some [OF p(2)] and x = exp_part_Some [OF p(3)]
  have "is_digit (hd a)" using i(2,3) by (cases a) simp_all
  then have s: "s = sg @ s1" and sg': "sg = [] \<and> hd a \<noteq> CHR ''-'' \<or> sg = [CHR ''-'']"
    using sg by (auto split: list.splits if_splits)
  show "s = n @ r" using s n i(1) f(1) x(1) by simp
  show "n \<noteq> []" using n i(2) by simp
  show "is_digit (hd n) \<or> hd n = CHR ''-''" using sg' i(2,3) by (auto simp: n list_all_iff)
  obtain h t where a: "a = h # t" using i(2) by (cases a) auto
  have "number (n @ r') = Some (n, r')" if "stops r'" for r'
    using sg' unsigned_number [OF p that] by (auto simp: n number_def a)
  moreover have "list_all num_char n"
    using sg' i(3) f(3) x(3) by (auto simp: n takes_def list_all_iff num_char_def)
  ultimately show "takes number n stops" by (simp add: takes_def)
qed

lemma hd_digits10_nonzero: "0 < n \<Longrightarrow> hd (digits10 n) \<noteq> CHR ''0''"
proof (induction n rule: digits10.induct)
  case (1 n)
  show ?case
  proof (cases "n < 10")
    case True
    with "1.prems" show ?thesis by (auto simp: digits10.simps [of n] char_of_eq_iff take_bit_eq_mod)
  next
    case False
    with 1 show ?thesis by (simp add: digits10.simps [of n] digits10_nonempty)
  qed
qed

lemma int_part_digits10: "no_digit r \<Longrightarrow> int_part (digits10 n @ r) = Some (digits10 n, r)"
proof (cases "n = 0")
  case False
  assume r: "no_digit r"
  obtain c cs where d: "digits10 n = c # cs" using digits10_nonempty [of n] by (cases "digits10 n") auto
  with False have "c \<noteq> CHR ''0''" using hd_digits10_nonzero [of n] by simp
  moreover have "digits (digits10 n @ r) = Some (digits10 n, r)"
    using takes_digits [of "digits10 n"] digits10_digits [of _ n] digits10_nonempty [of n] r
    by (auto simp: takes_def list_all_iff)
  ultimately show ?thesis by (simp add: int_part_def d)
qed (simp add: int_part_def digits10.simps [of 0] char_of_eq_iff)

lemma number_show_int:
  assumes "stops r"
  shows "number (show_int n @ r) = Some (show_int n, r)"
proof -
  have nd: "no_digit r" using assms by (auto simp: stops_def no_digit_def num_char_def split: list.splits)
  have f: "frac_part r = Some ([], r)" and e: "exp_part r = Some ([], r)"
    using assms by (auto simp: stops_def num_char_def frac_part_def exp_part_def split: list.splits)
  show ?thesis
  proof (cases "n < 0")
    case True
    then show ?thesis by (simp add: number_def show_int_def int_part_digits10 nd f e)
  next
    case False
    obtain c cs where "digits10 (nat n) = c # cs" "c \<noteq> CHR ''-''"
      by (metis digits10_nonempty hd_digits10(1) list.collapse)
    with False show ?thesis
      using int_part_digits10 [OF nd, of "nat n"] by (simp add: number_def show_int_def f e)
  qed
qed

end
