(* ===== verification/JSON_Facts.thy ===== *)
theory JSON_Facts
  imports JSON_Strings JSON_Numbers
begin

text \<open>
  What \<open>JSON_Encode\<close> writes is read back by \<open>parse_value\<close> as one value, the one that was
  given: \<open>encode_read\<close>. Strings come back with their invalid bytes replaced, raw messages
  as the value they parse to, so the escaping and the dropping of white space by the
  compaction change the text of a message only.
\<close>

declare encode.simps [simp]

section \<open>Reading a value, step by step\<close>

lemma skip_ws_shorter: "skip_ws s = c # cs \<Longrightarrow> length cs < length s"
  using skip_ws_length [of s] by simp

lemma parse_value_cases:
  assumes "parse_value d s = Some (v, t)"
  obtains (string) cs x where "skip_ws s = CHR 0x22 # cs" and "str_body cs = Some (x, t)" and "v = VString x"
  | (no_elements) cs where "skip_ws s = CHR ''['' # cs" and "d \<noteq> 0" and "skip_ws cs = CHR '']'' # t"
      and "v = VArray []"
  | (elements) cs x xs vs where "skip_ws s = CHR ''['' # cs" and "d \<noteq> 0" and "skip_ws cs = x # xs"
      and "x \<noteq> CHR '']''" and "parse_elements (d - 1) cs = Some (vs, t)" and "v = VArray vs"
  | (no_members) cs where "skip_ws s = CHR ''{'' # cs" and "d \<noteq> 0" and "skip_ws cs = CHR ''}'' # t"
      and "v = VObject []"
  | (members) cs x xs ms where "skip_ws s = CHR ''{'' # cs" and "d \<noteq> 0" and "skip_ws cs = x # xs"
      and "x \<noteq> CHR ''}''" and "parse_members (d - 1) cs = Some (ms, t)" and "v = VObject ms"
  | (scalar) c cs where "skip_ws s = c # cs" and "c \<notin> {CHR 0x22, CHR ''['', CHR ''{''}"
      and "scalar (c # cs) = Some (v, t)"
  using assms
  by (auto simp: parse_value.simps [of d s] split: list.splits if_splits)

lemma parse_value_string:
  "skip_ws s = CHR 0x22 # cs \<Longrightarrow> str_body cs = Some (x, t) \<Longrightarrow> parse_value d s = Some (VString x, t)"
  using skip_ws_shorter [of s] by (simp add: parse_value.simps [of d s])

lemma parse_value_array:
  "skip_ws s = CHR ''['' # cs \<Longrightarrow> d \<noteq> 0 \<Longrightarrow> skip_ws cs = CHR '']'' # t \<Longrightarrow> parse_value d s = Some (VArray [], t)"
  "skip_ws s = CHR ''['' # cs \<Longrightarrow> d \<noteq> 0 \<Longrightarrow> skip_ws cs = x # xs \<Longrightarrow> x \<noteq> CHR '']''
    \<Longrightarrow> parse_elements (d - 1) cs = Some (vs, t) \<Longrightarrow> parse_value d s = Some (VArray vs, t)"
  using skip_ws_shorter [of s] by (simp_all add: parse_value.simps [of d s])

lemma parse_value_object:
  "skip_ws s = CHR ''{'' # cs \<Longrightarrow> d \<noteq> 0 \<Longrightarrow> skip_ws cs = CHR ''}'' # t \<Longrightarrow> parse_value d s = Some (VObject [], t)"
  "skip_ws s = CHR ''{'' # cs \<Longrightarrow> d \<noteq> 0 \<Longrightarrow> skip_ws cs = x # xs \<Longrightarrow> x \<noteq> CHR ''}''
    \<Longrightarrow> parse_members (d - 1) cs = Some (ms, t) \<Longrightarrow> parse_value d s = Some (VObject ms, t)"
  using skip_ws_shorter [of s] by (simp_all add: parse_value.simps [of d s])

lemma parse_value_scalar:
  "skip_ws s = c # cs \<Longrightarrow> c \<notin> {CHR 0x22, CHR ''['', CHR ''{''} \<Longrightarrow> parse_value d s = scalar (c # cs)"
  using skip_ws_shorter [of s] by (simp add: parse_value.simps [of d s])

lemma parse_elements_cases:
  assumes "parse_elements d s = Some (vs, t)"
  obtains (last) v r where "parse_value d s = Some (v, r)" and "skip_ws r = CHR '']'' # t" and "vs = [v]"
  | (more) v r cs ws where "parse_value d s = Some (v, r)" and "skip_ws r = CHR '','' # cs"
      and "length cs < length s" and "parse_elements d cs = Some (ws, t)" and "vs = v # ws"
  using assms
  by (auto simp: parse_elements.simps [of d s] split: option.splits list.splits if_splits)

lemma parse_elements_last:
  "parse_value d s = Some (v, CHR '']'' # t) \<Longrightarrow> parse_elements d s = Some ([v], t)"
  by (simp add: parse_elements.simps [of d s] json_space_def)

lemma parse_elements_more:
  "parse_value d s = Some (v, CHR '','' # cs) \<Longrightarrow> length cs < length s
    \<Longrightarrow> parse_elements d cs = Some (ws, t) \<Longrightarrow> parse_elements d s = Some (v # ws, t)"
  by (simp add: parse_elements.simps [of d s] json_space_def)

lemma parse_members_cases:
  assumes "parse_members d s = Some (ms, t)"
  obtains (last) qs k r1 cs v r2 where "skip_ws s = CHR 0x22 # qs" and "str_body qs = Some (k, r1)"
      and "skip_ws r1 = CHR '':'' # cs" and "length cs < length s" and "parse_value d cs = Some (v, r2)"
      and "skip_ws r2 = CHR ''}'' # t" and "ms = [(k, v)]"
  | (more) qs k r1 cs v r2 es ns where "skip_ws s = CHR 0x22 # qs" and "str_body qs = Some (k, r1)"
      and "skip_ws r1 = CHR '':'' # cs" and "length cs < length s" and "parse_value d cs = Some (v, r2)"
      and "skip_ws r2 = CHR '','' # es" and "length es < length s"
      and "parse_members d es = Some (ns, t)" and "ms = (k, v) # ns"
  using assms
  by (auto simp: parse_members.simps [of d s] split: option.splits list.splits if_splits)

lemma parse_members_step:
  assumes "str_body qs = Some (k, CHR '':'' # cs)"
  shows "parse_value d cs = Some (v, CHR ''}'' # t)
      \<Longrightarrow> parse_members d (CHR 0x22 # qs) = Some ([(k, v)], t)"
    and "parse_value d cs = Some (v, CHR '','' # es) \<Longrightarrow> length es < length cs
      \<Longrightarrow> parse_members d es = Some (ns, t)
      \<Longrightarrow> parse_members d (CHR 0x22 # qs) = Some ((k, v) # ns, t)"
proof -
  have "length cs < length qs" using str_body_length [OF assms] by simp
  then show "parse_value d cs = Some (v, CHR ''}'' # t)
      \<Longrightarrow> parse_members d (CHR 0x22 # qs) = Some ([(k, v)], t)"
    and "parse_value d cs = Some (v, CHR '','' # es) \<Longrightarrow> length es < length cs
      \<Longrightarrow> parse_members d es = Some (ns, t)
      \<Longrightarrow> parse_members d (CHR 0x22 # qs) = Some ((k, v) # ns, t)"
    using assms by (simp_all add: parse_members.simps [of d "_ # _"] json_space_def)
qed

lemma parse_elements_head:
  assumes "parse_elements d s = Some (vs, t)"
  obtains x xs where "skip_ws s = x # xs" and "x \<noteq> CHR '']''"
proof -
  obtain v r where v: "parse_value d s = Some (v, r)"
    using assms by (auto elim: parse_elements_cases)
  have sc: "scalar (CHR '']'' # cs) = None" for cs
    by (simp add: scalar_def literals_def has_prefix_def number_def int_part_def digits_def is_digit_def)
  from v show thesis
  proof (rule parse_value_cases)
    fix c cs
    assume c: "skip_ws s = c # cs" "scalar (c # cs) = Some (v, r)"
    then show thesis using sc [of cs] by (intro that [OF c(1)]) auto
  qed (use that in auto)
qed

lemma parse_members_head:
  "parse_members d s = Some (ms, t) \<Longrightarrow> \<exists>xs. skip_ws s = CHR 0x22 # xs"
  by (auto elim: parse_members_cases)


section \<open>Compaction keeps values\<close>

definition plain :: "char \<Rightarrow> bool" where
  "plain c \<longleftrightarrow> \<not> html c \<and> code c < 0x80 \<and> \<not> json_space c \<and> c \<noteq> CHR 0x22"

lemma compact_plain_list: "list_all plain n \<Longrightarrow> compact False (n @ t) = n @ compact False t"
  by (induction n) (simp_all add: plain_def compact_plain)

lemma num_char_plain: "num_char c \<Longrightarrow> plain c"
  by (auto simp: num_char_def plain_def is_digit_def html_def json_space_def)

lemma has_prefix_split: "has_prefix s p \<Longrightarrow> s = p @ drop (length p) s"
  unfolding has_prefix_def by (metis append_take_drop_id)

lemma scalar_cases:
  assumes "scalar s = Some (v, t)"
  obtains (literal) l where "(l, v) \<in> set literals" and "s = l @ t"
  | (number) n where "number s = Some (n, t)" and "v = VNumber n"
proof (cases "filter (\<lambda>(l, v). has_prefix s l) literals")
  case Nil
  with assms number show thesis by (auto simp: scalar_def)
next
  case (Cons lv rest)
  then have "lv \<in> set (filter (\<lambda>(l, v). has_prefix s l) literals)" by simp
  then have "lv \<in> set literals" "has_prefix s (fst lv)" by auto
  with assms Cons show thesis
    using has_prefix_split [of s "fst lv"]
    by (intro literal [of "fst lv"]) (auto simp: scalar_def split: prod.splits)
qed

lemma scalar_literal: "(l, v) \<in> set literals \<Longrightarrow> scalar (l @ r) = Some (v, r)"
  by (auto simp: scalar_def literals_def has_prefix_def)

lemma scalar_number: "number s = Some (n, r) \<Longrightarrow> scalar s = Some (VNumber n, r)"
proof -
  assume n: "number s = Some (n, r)"
  note ns = number_Some [OF n]
  have "\<not> has_prefix s l" if "(l, v) \<in> set literals" for l v
    using that ns(1-3) by (cases n) (auto simp: literals_def has_prefix_def is_digit_def)
  then have f: "filter (\<lambda>(l, v). has_prefix s l) literals = []" by (auto simp: filter_empty_conv)
  show ?thesis unfolding scalar_def f by (simp add: n)
qed

lemma scalar_takes:
  assumes "scalar s = Some (v, t)"
  obtains c n where "s = (c # n) @ t" and "list_all plain (c # n)"
    and "c \<notin> {CHR 0x22, CHR ''['', CHR ''{''}" and "\<And>r. stops r \<Longrightarrow> scalar ((c # n) @ r) = Some (v, r)"
  using assms
proof (cases rule: scalar_cases)
  case (literal l)
  then have l: "list_all plain l \<and> l \<noteq> [] \<and> hd l \<notin> {CHR 0x22, CHR ''['', CHR ''{''}"
    by (auto simp: literals_def plain_def html_def json_space_def)
  then obtain c n where cn: "l = c # n" by (cases l) auto
  show thesis
  proof (rule that)
    show "scalar ((c # n) @ r) = Some (v, r)" for r
      using scalar_literal [OF literal(1), of r] by (simp add: cn)
  qed (use literal l cn in auto)
next
  case (number n)
  note ns = number_Some [OF number(1)]
  obtain c m where cn: "n = c # m" using ns(2) by (cases n) auto
  show thesis
  proof (rule that)
    show "scalar ((c # m) @ r) = Some (v, r)" if "stops r" for r
      using scalar_number [OF takesD [OF ns(4) that]] number(2) by (simp add: cn)
    show "list_all plain (c # m)" using ns(4) num_char_plain by (auto simp: takes_def cn list_all_iff)
  qed (use ns cn in \<open>auto simp: is_digit_def\<close>)
qed

text \<open>\<open>reads d u v\<close>: the text \<open>u\<close> is read as \<open>v\<close> before any rest that ends a number.\<close>

definition reads_as :: "nat \<Rightarrow> string \<Rightarrow> jvalue \<Rightarrow> bool" where
  "reads_as d u v \<longleftrightarrow> (\<forall>d' r. d \<le> d' \<longrightarrow> stops r \<longrightarrow> parse_value d' (u @ r) = Some (v, r))"

lemma reads_asD: "reads_as d u v \<Longrightarrow> d \<le> d' \<Longrightarrow> stops r \<Longrightarrow> parse_value d' (u @ r) = Some (v, r)"
  by (simp add: reads_as_def)

lemma stops_simps [simp]: "stops []" "stops (CHR '','' # r)" "stops (CHR '']'' # r)"
  "stops (CHR ''}'' # r)" "stops (CHR 0x0A # r)"
  by (simp_all add: stops_def num_char_def is_digit_def)

lemma compact_delim:
  "skip_ws s = c # cs \<Longrightarrow> plain c \<Longrightarrow> compact False s = c # compact False cs"
  using compact_skip [of s] by (simp add: plain_def compact_plain)

lemma plain_delims [simp]: "plain CHR '']''" "plain CHR '',''" "plain CHR '':''" "plain CHR ''[''"
  "plain CHR ''{''" "plain CHR ''}''"
  by (simp_all add: plain_def html_def json_space_def)

lemma space_delims [simp]: "\<not> json_space CHR 0x22" "\<not> json_space CHR ''[''" "\<not> json_space CHR ''{''"
  "\<not> json_space CHR '']''" "\<not> json_space CHR ''}''"
  by (simp_all add: json_space_def)

lemma compact_quote: "skip_ws s = CHR 0x22 # cs \<Longrightarrow> compact False s = CHR 0x22 # compact True cs"
  using compact_skip [of s] by (simp add: compact_plain html_def json_space_def)

lemma compact_value_step:
  assumes p: "parse_value d s = Some (v, t)"
    and el: "\<And>d s' vs t'. length s' < length s \<Longrightarrow> parse_elements d s' = Some (vs, t')
      \<Longrightarrow> \<exists>u. compact False s' = u @ compact False t' \<and> (\<forall>d' r. d \<le> d' \<longrightarrow> parse_elements d' (u @ r) = Some (vs, r))"
    and me: "\<And>d s' ms t'. length s' < length s \<Longrightarrow> parse_members d s' = Some (ms, t')
      \<Longrightarrow> \<exists>u. compact False s' = u @ compact False t' \<and> (\<forall>d' r. d \<le> d' \<longrightarrow> parse_members d' (u @ r) = Some (ms, r))"
  shows "\<exists>u. compact False s = u @ compact False t \<and> reads_as d u v"
  using p
proof (cases rule: parse_value_cases)
  case (string cs x)
  from compact_string [OF string(2)] obtain u where u: "compact True cs = u @ compact False t"
    "\<forall>r. str_body (u @ r) = Some (x, r)" by blast
  have "reads_as d (CHR 0x22 # u) v"
    unfolding reads_as_def string(3) using u(2) by (auto intro: parse_value_string)
  with u(1) compact_quote [OF string(1)] show ?thesis by (intro exI [of _ "CHR 0x22 # u"]) simp
next
  case (no_elements cs)
  have "reads_as d ''[]'' v"
    unfolding reads_as_def no_elements(4) using no_elements(2) by (auto intro!: parse_value_array(1))
  with no_elements(1,3) show ?thesis by (intro exI [of _ "''[]''"]) (simp add: compact_delim)
next
  case (elements cs x xs vs)
  from el [OF skip_ws_shorter [OF elements(1)] elements(5)]
  obtain u where u: "compact False cs = u @ compact False t"
    "\<forall>d' r. d - 1 \<le> d' \<longrightarrow> parse_elements d' (u @ r) = Some (vs, r)" by blast
  have "reads_as d (CHR ''['' # u) v"
    unfolding reads_as_def
  proof (intro allI impI)
    fix d' r assume d': "d \<le> d'"
    then have e: "parse_elements (d' - 1) (u @ r) = Some (vs, r)" using u(2) by simp
    then obtain y ys where "skip_ws (u @ r) = y # ys" "y \<noteq> CHR '']''" by (rule parse_elements_head)
    with e d' elements(2,6) show "parse_value d' ((CHR ''['' # u) @ r) = Some (v, r)"
      by (auto intro: parse_value_array(2))
  qed
  with u(1) compact_delim [OF elements(1)] show ?thesis by (intro exI [of _ "CHR ''['' # u"]) simp
next
  case (no_members cs)
  have "reads_as d ''{}'' v"
    unfolding reads_as_def no_members(4) using no_members(2) by (auto intro!: parse_value_object(1))
  with no_members(1,3) show ?thesis by (intro exI [of _ "''{}''"]) (simp add: compact_delim)
next
  case (members cs x xs ms)
  from me [OF skip_ws_shorter [OF members(1)] members(5)]
  obtain u where u: "compact False cs = u @ compact False t"
    "\<forall>d' r. d - 1 \<le> d' \<longrightarrow> parse_members d' (u @ r) = Some (ms, r)" by blast
  have "reads_as d (CHR ''{'' # u) v"
    unfolding reads_as_def
  proof (intro allI impI)
    fix d' r assume d': "d \<le> d'"
    then have e: "parse_members (d' - 1) (u @ r) = Some (ms, r)" using u(2) by simp
    then obtain ys where "skip_ws (u @ r) = CHR 0x22 # ys" by (auto dest: parse_members_head)
    with e d' members(2,6) show "parse_value d' ((CHR ''{'' # u) @ r) = Some (v, r)"
      by (auto intro: parse_value_object(2))
  qed
  with u(1) compact_delim [OF members(1)] show ?thesis by (intro exI [of _ "CHR ''{'' # u"]) simp
next
  case (scalar c cs)
  from scalar(3) obtain e n where n: "c # cs = (e # n) @ t" "list_all plain (e # n)"
    "e \<notin> {CHR 0x22, CHR ''['', CHR ''{''}" "\<And>r. stops r \<Longrightarrow> scalar ((e # n) @ r) = Some (v, r)"
    by (rule scalar_takes) (use that in blast)
  have "reads_as d (e # n) v"
    unfolding reads_as_def using n(2,3,4) by (auto simp: parse_value_scalar plain_def)
  moreover have "compact False s = (e # n) @ compact False t"
    using compact_skip [of s] compact_plain_list [OF n(2)] scalar(1) n(1) by simp
  ultimately show ?thesis by blast
qed

definition elements_kept :: "string \<Rightarrow> bool" where
  "elements_kept s \<longleftrightarrow> (\<forall>d vs t. parse_elements d s = Some (vs, t)
     \<longrightarrow> (\<exists>u. compact False s = u @ compact False t
            \<and> (\<forall>d' r. d \<le> d' \<longrightarrow> parse_elements d' (u @ r) = Some (vs, r))))"

definition members_kept :: "string \<Rightarrow> bool" where
  "members_kept s \<longleftrightarrow> (\<forall>d ms t. parse_members d s = Some (ms, t)
     \<longrightarrow> (\<exists>u. compact False s = u @ compact False t
            \<and> (\<forall>d' r. d \<le> d' \<longrightarrow> parse_members d' (u @ r) = Some (ms, r))))"

lemma compact_elements_step:
  assumes val: "\<And>d v t. parse_value d s = Some (v, t) \<Longrightarrow> \<exists>u. compact False s = u @ compact False t \<and> reads_as d u v"
    and el: "\<And>s'. length s' < length s \<Longrightarrow> elements_kept s'"
  shows "elements_kept s"
  unfolding elements_kept_def
proof (intro allI impI)
  fix d vs t
  assume "parse_elements d s = Some (vs, t)"
  then show "\<exists>u. compact False s = u @ compact False t
      \<and> (\<forall>d' r. d \<le> d' \<longrightarrow> parse_elements d' (u @ r) = Some (vs, r))"
  proof (cases rule: parse_elements_cases)
    case (last v r)
    from val [OF last(1)] obtain u where u: "compact False s = u @ compact False r" "reads_as d u v" by blast
    have "parse_elements d' ((u @ '']'') @ q) = Some (vs, q)" if "d \<le> d'" for d' q
      using reads_asD [OF u(2) that, of "CHR '']'' # q"] last(3) by (simp add: parse_elements_last)
    with u(1) last(2) show ?thesis by (intro exI [of _ "u @ '']''"]) (simp add: compact_delim)
  next
    case (more v r cs ws)
    from val [OF more(1)] obtain u where u: "compact False s = u @ compact False r" "reads_as d u v" by blast
    from el [OF more(3)] more(4) obtain w where w: "compact False cs = w @ compact False t"
      "\<forall>d' r. d \<le> d' \<longrightarrow> parse_elements d' (w @ r) = Some (ws, r)" unfolding elements_kept_def by blast
    have "parse_elements d' ((u @ CHR '','' # w) @ q) = Some (vs, q)" if "d \<le> d'" for d' q
      using reads_asD [OF u(2) that, of "CHR '','' # w @ q"] w(2) that more(5)
      by (auto intro!: parse_elements_more [where cs = "w @ q"])
    with u(1) w(1) more(2) show ?thesis
      by (intro exI [of _ "u @ CHR '','' # w"]) (simp add: compact_delim)
  qed
qed

lemma compact_members_step:
  assumes val: "\<And>s' d v t. length s' < length s \<Longrightarrow> parse_value d s' = Some (v, t)
      \<Longrightarrow> \<exists>u. compact False s' = u @ compact False t \<and> reads_as d u v"
    and me: "\<And>s'. length s' < length s \<Longrightarrow> members_kept s'"
  shows "members_kept s"
  unfolding members_kept_def
proof (intro allI impI)
  fix d ms t
  assume "parse_members d s = Some (ms, t)"
  then show "\<exists>u. compact False s = u @ compact False t
      \<and> (\<forall>d' r. d \<le> d' \<longrightarrow> parse_members d' (u @ r) = Some (ms, r))"
  proof (cases rule: parse_members_cases)
    case (last qs k r1 cs v r2)
    from compact_string [OF last(2)] obtain w where w: "compact True qs = w @ compact False r1"
      "\<forall>r. str_body (w @ r) = Some (k, r)" by blast
    from val [OF last(4,5)] obtain u where u: "compact False cs = u @ compact False r2" "reads_as d u v" by blast
    have "parse_members d' ((CHR 0x22 # w @ CHR '':'' # u @ ''}'') @ q) = Some (ms, q)" if "d \<le> d'" for d' q
      using reads_asD [OF u(2) that, of "CHR ''}'' # q"] w(2) last(7)
      by (auto intro!: parse_members_step(1))
    with w(1) u(1) last(1,3,6) show ?thesis
      by (intro exI [of _ "CHR 0x22 # w @ CHR '':'' # u @ ''}''"]) (simp add: compact_delim compact_quote)
  next
    case (more qs k r1 cs v r2 es ns)
    from compact_string [OF more(2)] obtain w where w: "compact True qs = w @ compact False r1"
      "\<forall>r. str_body (w @ r) = Some (k, r)" by blast
    from val [OF more(4,5)] obtain u where u: "compact False cs = u @ compact False r2" "reads_as d u v" by blast
    from me [OF more(7)] more(8) obtain x where x: "compact False es = x @ compact False t"
      "\<forall>d' r. d \<le> d' \<longrightarrow> parse_members d' (x @ r) = Some (ns, r)" unfolding members_kept_def by blast
    have "parse_members d' ((CHR 0x22 # w @ CHR '':'' # u @ CHR '','' # x) @ q) = Some (ms, q)"
      if "d \<le> d'" for d' q
      using reads_asD [OF u(2) that, of "CHR '','' # x @ q"] w(2) x(2) that more(9)
      by (auto intro!: parse_members_step(2) [where es = "x @ q"])
    with w(1) u(1) x(1) more(1,3,6) show ?thesis
      by (intro exI [of _ "CHR 0x22 # w @ CHR '':'' # u @ CHR '','' # x"])
        (simp add: compact_delim compact_quote)
  qed
qed

lemma compact_all:
  "(\<forall>d v t. parse_value d s = Some (v, t)
      \<longrightarrow> (\<exists>u. compact False s = u @ compact False t \<and> reads_as d u v))
   \<and> elements_kept s \<and> members_kept s"
proof (induction s rule: measure_induct_rule [of length])
  case (less s)
  have el: "elements_kept s'" and me: "members_kept s'" if "length s' < length s" for s'
    using less [OF that] by blast+
  have val: "\<exists>u. compact False s = u @ compact False t \<and> reads_as d u v"
    if "parse_value d s = Some (v, t)" for d v t
    using that el [unfolded elements_kept_def, rule_format] me [unfolded members_kept_def, rule_format]
    by (rule compact_value_step)
  have "elements_kept s" using val el by (rule compact_elements_step)
  moreover have "members_kept s"
  proof (rule compact_members_step)
    show "\<exists>u. compact False s' = u @ compact False t \<and> reads_as d u v"
      if "length s' < length s" and "parse_value d s' = Some (v, t)" for s' d v t
      using less [OF that(1)] that(2) by simp
  qed (rule me)
  ultimately show ?case using val by simp
qed

lemma compact_document:
  assumes "parse_document d s = Some v"
  shows "reads_as d (compact False s) v"
proof -
  from assms obtain t where p: "parse_value d s = Some (v, t)" and t: "skip_ws t = []"
    by (auto simp: parse_document_def split: option.splits if_splits)
  have "compact False t = []" using compact_skip [of t] t by simp
  with p compact_all [of s] show ?thesis by fastforce
qed

section \<open>Documents are read back\<close>

text \<open>\<open>fits j d\<close>: the raw messages in \<open>j\<close> are valid, and \<open>d\<close> nested brackets are enough.\<close>

primrec fits :: "json \<Rightarrow> nat \<Rightarrow> bool" where
  "fits JNull d \<longleftrightarrow> True"
| "fits (JBool b) d \<longleftrightarrow> True"
| "fits (JNum n) d \<longleftrightarrow> True"
| "fits (JStr s) d \<longleftrightarrow> True"
| "fits (JRaw s) d \<longleftrightarrow> json_Valid s \<and> max_nesting \<le> d"
| "fits (JObj m) d \<longleftrightarrow> d \<noteq> 0 \<and> list_all (\<lambda>(k, f). f (d - 1)) (map (map_prod id fits) m)"

lemma sort_map_prod:
  fixes f :: "'b \<Rightarrow> 'c" and m :: "('a::linorder \<times> 'b) list"
  shows "sort_key fst (map (map_prod id f) m) = map (map_prod id f) (sort_key fst m)"
proof -
  have ins: "insort_key fst (map_prod id f x) (map (map_prod id f) ys)
      = map (map_prod id f) (insort_key fst x ys)" for x :: "'a \<times> 'b" and ys
    by (induction ys) (auto simp: map_prod_def split: prod.splits)
  show ?thesis by (induction m) (simp_all add: ins [unfolded id_def] id_def)
qed

lemma encode_string_read: "reads_as d (encode_string s) (VString (valid_utf8 s))"
  unfolding reads_as_def encode_string_def
  using escape_body_read by (auto intro!: parse_value_string)

lemma members_read:
  assumes "list_all (\<lambda>(k, j). reads_as d (encode j) (json_value j)) ys" and "ys \<noteq> []" and "d \<le> d'"
  shows "parse_members d' (join (map (\<lambda>(k, j). encode_string k @ CHR '':'' # encode j) ys) @ CHR ''}'' # r)
    = Some (map (map_prod valid_utf8 json_value) ys, r)"
  using assms
proof (induction ys)
  case (Cons kj ys)
  obtain k j where kj: "kj = (k, j)" by (cases kj)
  with Cons.prems have j: "reads_as d (encode j) (json_value j)" by simp
  have key: "str_body ((escape_body k @ [CHR 0x22]) @ CHR '':'' # x) = Some (valid_utf8 k, CHR '':'' # x)" for x
    using escape_body_read [of k "CHR '':'' # x"] by simp
  show ?case
  proof (cases ys)
    case Nil
    have "parse_members d' (CHR 0x22 # (escape_body k @ [CHR 0x22]) @ CHR '':'' # encode j @ CHR ''}'' # r)
        = Some ([(valid_utf8 k, json_value j)], r)"
      using key reads_asD [OF j Cons.prems(3), of "CHR ''}'' # r"] by (rule parse_members_step(1)) simp
    then show ?thesis by (simp add: kj Nil encode_string_def)
  next
    case (Cons y zs)
    let ?rest = "join (map (\<lambda>(k, j). encode_string k @ CHR '':'' # encode j) ys) @ CHR ''}'' # r"
    have "parse_members d' ?rest = Some (map (map_prod valid_utf8 json_value) ys, r)"
      using Cons.IH Cons.prems Cons by simp
    moreover have "length ?rest < length (encode j @ CHR '','' # ?rest)" by simp
    ultimately have "parse_members d' (CHR 0x22 # (escape_body k @ [CHR 0x22]) @ CHR '':'' # encode j @ CHR '','' # ?rest)
        = Some ((valid_utf8 k, json_value j) # map (map_prod valid_utf8 json_value) ys, r)"
      using key reads_asD [OF j Cons.prems(3), of "CHR '','' # ?rest"]
      by (intro parse_members_step(2) [where es = ?rest and cs = "encode j @ CHR '','' # ?rest"]) simp_all
    then show ?thesis by (simp add: kj Cons encode_string_def)
  qed
qed simp

lemma encode_read: "fits j d \<Longrightarrow> reads_as d (encode j) (json_value j)"
proof (induction j arbitrary: d)
  case JNull
  have "scalar (''null'' @ r) = Some (VNull, r)" for r by (rule scalar_literal) (simp add: literals_def)
  then show ?case by (simp add: reads_as_def parse_value_scalar json_space_def)
next
  case (JBool b)
  have "scalar ((if b then ''true'' else ''false'') @ r) = Some (VBool b, r)" for r
    by (rule scalar_literal) (simp add: literals_def)
  then show ?case by (cases b) (simp_all add: reads_as_def parse_value_scalar json_space_def)
next
  case (JNum n)
  have "parse_value d' (show_int n @ r) = Some (VNumber (show_int n), r)" if "stops r" for d' r
  proof -
    note n = number_show_int [OF that, of n]
    note ns = number_Some [OF n]
    then obtain c cs where c: "show_int n = c # cs" "is_digit c \<or> c = CHR ''-''" by (cases "show_int n") auto
    then have "\<not> json_space c" and ok: "c \<notin> {CHR 0x22, CHR ''['', CHR ''{''}"
      by (auto simp: json_space_def is_digit_def)
    then have "skip_ws (show_int n @ r) = c # cs @ r" using c(1) by simp
    with ok have "parse_value d' (show_int n @ r) = scalar (show_int n @ r)"
      using c(1) by (simp add: parse_value_scalar)
    with scalar_number [OF n] show ?thesis by simp
  qed
  then show ?case by (simp add: reads_as_def)
next
  case (JStr s)
  show ?case by (simp add: encode_string_read)
next
  case (JRaw s)
  then obtain v where v: "parse_document max_nesting s = Some v" and d: "max_nesting \<le> d"
    by (auto simp: json_Valid_def)
  from compact_document [OF v] d v show ?case by (auto simp: reads_as_def)
next
  case (JObj m)
  let ?ys = "sort_key fst m"
  from JObj have d: "d \<noteq> 0" and "\<forall>(k, j) \<in> set m. reads_as (d - 1) (encode j) (json_value j)"
    by (force simp: list_all_iff)+
  then have r: "list_all (\<lambda>(k, j). reads_as (d - 1) (encode j) (json_value j)) ?ys"
    by (simp add: list_all_iff)
  let ?body = "join (map (\<lambda>(k, j). encode_string k @ CHR '':'' # encode j) ?ys)"
  have e: "encode (JObj m) = CHR ''{'' # ?body @ ''}''"
    by (simp add: sort_map_prod comp_def case_prod_unfold)
  have v: "json_value (JObj m) = VObject (map (map_prod valid_utf8 json_value) ?ys)"
    by (auto simp: sort_map_prod comp_def apfst_def)
  show ?case
    unfolding reads_as_def e v
  proof (intro allI impI)
    fix d' rest assume d': "d \<le> d'"
    show "parse_value d' ((CHR ''{'' # ?body @ ''}'') @ rest)
        = Some (VObject (map (map_prod valid_utf8 json_value) ?ys), rest)"
    proof (cases "?ys = []")
      case True
      with d d' show ?thesis by (auto intro!: parse_value_object(1))
    next
      case False
      with members_read [OF r] d'
      have p: "parse_members (d' - 1) (?body @ CHR ''}'' # rest)
          = Some (map (map_prod valid_utf8 json_value) ?ys, rest)" by simp
      then obtain xs where "skip_ws (?body @ CHR ''}'' # rest) = CHR 0x22 # xs"
        by (auto dest: parse_members_head)
      with p d d' show ?thesis by (auto intro!: parse_value_object(2))
    qed
  qed
qed

lemma encode_document_read:
  assumes "fits j d"
  shows "parse_document d (encode_document j) = Some (json_value j)"
  using reads_asD [OF encode_read [OF assms] order_refl, of "[CHR 0x0A]"]
  by (simp add: parse_document_def encode_document_def json_space_def)

declare encode.simps [simp del]

end
