(* ===== verification/Wire.thy ===== *)
theory Wire
  imports Server JSON_Facts
begin

text \<open>
  The bytes of requests and responses: what the URL endpoint makes of a JSON body, and the
  value a client reads from the body of an answer.
\<close>

section \<open>Request bodies\<close>

lemma url_body_document:
  assumes "received (hr_body r) = (s, e)" and "length s \<le> 2 ^ 20" and "e = IoEOF"
    and "parse_document max_nesting s = Some v"
  shows "url_body r = decode_url_request v"
proof -
  have "max_bytes (2 ^ 20) (received (hr_body r)) = (s, IoEOF)"
    using assms(1-3) by (simp add: max_bytes_def)
  moreover obtain t where "parse_value max_nesting s = Some (v, t)"
    using assms(4) by (auto simp: parse_document_def split: option.splits if_splits)
  ultimately have "decode_value (max_bytes (2 ^ 20) (received (hr_body r))) = Some v"
    by (simp add: decode_value_def split: jvalue.splits)
  then show ?thesis by (simp add: url_body_def)
qed

lemma fits_flat: "d \<noteq> 0 \<Longrightarrow> list_all (\<lambda>(k, j). \<exists>s. j = JStr s) m \<Longrightarrow> fits (JObj m) d"
  by (auto simp: list_all_iff)

definition url_request_document :: "string \<Rightarrow> string \<Rightarrow> string" where
  "url_request_document u l = encode_document (JObj [(''url'', JStr u), (''language'', JStr l)])"

lemma valid_utf8_ascii: "list_all (\<lambda>c. code c < 0x80) s \<Longrightarrow> valid_utf8 s = s"
  by (induction s) simp_all

lemma string_less: "''language'' < (''url'' :: string)"
  by (simp add: less_char_def)

lemma url_request_document_value:
  "parse_document max_nesting (url_request_document u l)
     = Some (VObject [(''language'', VString (valid_utf8 l)), (''url'', VString (valid_utf8 u))])"
proof -
  have "fits (JObj [(''url'', JStr u), (''language'', JStr l)]) max_nesting"
    by (rule fits_flat) (simp_all add: max_nesting_def)
  from encode_document_read [OF this] string_less show ?thesis
    by (simp add: url_request_document_def valid_utf8_ascii not_less_iff_gr_or_eq)
qed

lemma url_body_read:
  assumes "received (hr_body r) = (url_request_document u l, IoEOF)"
    and "length (url_request_document u l) \<le> 2 ^ 20"
  shows "url_body r = Some \<lparr>ur_URL = valid_utf8 u, ur_Language = valid_utf8 l\<rparr>"
proof -
  have "lower CHR ''l'' \<noteq> lower CHR ''u''" by (simp add: lower_def)
  then show ?thesis
    using url_body_document [OF assms refl url_request_document_value]
    by (simp add: decode_url_request_def equal_fold_def)
qed

end
