(* ===== verification/Api_Properties.thy ===== *)
theory Api_Properties
  imports Service Example_Env Wire
begin

text \<open>
  The properties of the HTTP API and of the audio store behind it: who is let in, what an
  accepted or refused request leaves behind, and what a poll answers.
\<close>

section \<open>The audio store\<close>

text \<open>The audio of an upload is handed out at most once: \<open>Take\<close> returns what \<open>Put\<close>
  stored, a second \<open>Take\<close> and a \<open>Take\<close> after \<open>Drop\<close> find nothing, and no operation on a
  job touches the entry of another.\<close>

lemma audio_taken_once:
  "fst (Take j (Put j p s)) = Some p \<and> fst (Take j (snd (Take j s))) = None
    \<and> fst (Take j (Drop j s)) = None
    \<and> (k \<noteq> j \<longrightarrow> clip_of (Put j p s) k = clip_of s k \<and> clip_of (snd (Take j s)) k = clip_of s k
         \<and> clip_of (Drop j s) k = clip_of s k)"
  using clip_store.take_after_put clip_store.second_take_fails clip_store.take_after_drop
    clip_store.other_job_unaffected by blast

lemma audio_taken_once_witness:
  "clip_of (Drop ''a'' ex_mem) ''j'' = clip_of ex_mem ''j'' \<and> clip_of ex_mem ''j'' = Some 0"
proof -
  have "clip_of (Drop ''a'' ex_mem) ''j'' = clip_of ex_mem ''j''"
    using audio_taken_once [of "''a''" 0 ex_mem "''j''"] by simp
  then show ?thesis by (simp add: ex_mem_def clip_of_def audio_defs NewStore_def)
qed

text \<open>\<open>Drop\<close> erases: in a well-formed store, dropping a job that holds audio zeroes that
  audio, leaves the audio of every other job as it was, lowers \<open>Len\<close> by one and keeps the
  store well-formed.\<close>

lemma Drop_erases:
  assumes "mem_ok s" and "clip_of s j = Some p"
  shows "zeroed (Data (clips s p)) (Drop j s) \<and> Len s = Suc (Len (Drop j s)) \<and> mem_ok (Drop j s)
    \<and> (\<forall>k q. clip_of s k = Some q \<and> k \<noteq> j \<longrightarrow>
         read_slice (Data (clips s q)) (Drop j s) = read_slice (Data (clips s q)) s)"
  using Drop_zeroes [OF assms(2)] Len_ops(2) [OF assms] mem_ok_Drop [OF assms(1)] Drop_frame [OF assms(1)]
  by blast

lemma Drop_erases_witness:
  "mem_ok ex_mem \<and> read_slice (Some 0) ex_mem = ''RIFF'' \<and> zeroed (Some 0) (Drop ''j'' ex_mem)"
proof -
  have ok: "mem_ok ex_mem"
    by (auto simp: mem_ok_def ex_mem_def audio_defs NewStore_def)
  have c: "clip_of ex_mem ''j'' = Some 0" "Data (clips ex_mem 0) = Some 0"
    "read_slice (Some 0) ex_mem = ''RIFF''"
    by (simp_all add: ex_mem_def clip_of_def audio_defs NewStore_def)
  from Drop_erases [OF ok c(1)] ok c(2,3) show ?thesis by simp
qed

section \<open>Authentication\<close>

text \<open>C33: Behind every route but \<open>/health\<close>, a request whose key is not the configured one is
  answered 401 and does nothing: no Redis command, no audio stored, the world unchanged. In
  particular, under a configuration that \<open>Load\<close> returned, a request without credentials is.\<close>

theorem unauthorized_does_nothing:
  assumes "route (hr_method r) (hr_path r) = Found e vs" and "e \<noteq> Health"
    and "extractAPIKey r \<noteq> cfg_APIKey (srv_cfg s)
      \<or> (config_ok (srv_cfg s) \<and> header r ''X-Api-Key'' = [] \<and> header r ''Authorization'' = [])"
  shows "\<exists>resp. run X (Handler s up newJobID r) w = ((resp, accessLog r 401), w, [])
    \<and> hs_status resp = 401"
proof -
  have "extractAPIKey r \<noteq> cfg_APIKey (srv_cfg s)"
    using assms(3)
  proof
    assume c: "config_ok (srv_cfg s) \<and> header r ''X-Api-Key'' = [] \<and> header r ''Authorization'' = []"
    then have "extractAPIKey r = []" by (simp add: extractAPIKey_def)
    moreover have "cfg_APIKey (srv_cfg s) \<noteq> []" using c by (simp add: config_ok_def)
    ultimately show ?thesis by (simp only: eq_commute not_False_eq_True simp_thms)
  qed
  then have "auth s h r = Ret (writeError 401
      ''invalid or missing API key (X-API-Key or Authorization: Bearer)'')" for h
    by (simp add: auth_def)
  with assms(1,2) have "dispatch s up newJobID r = Ret (writeError 401
      ''invalid or missing API key (X-API-Key or Authorization: Bearer)'')"
    unfolding dispatch_def by (cases e) simp_all
  then show ?thesis by (simp add: Handler_def run.simps writeError_def writeJSON_def)
qed

definition ex_config :: config where
  "ex_config = \<lparr>cfg_Port = ''8770'', cfg_APIKey = ''key'', cfg_RedisURL = ''r'',
     cfg_WhisperUpstreamURL = ''u'', cfg_WhisperAPIKey = ''k'', cfg_MaxConcurrency = 2,
     cfg_QueueSize = 1, cfg_JobTTL = Hour, cfg_MaxAudioBytes = 10, cfg_DownloadTimeout = Minute,
     cfg_UpstreamTimeout = Minute, cfg_DefaultLanguage = ''pt'', cfg_WhisperWindow = zero_window\<rparr>"

definition ex_server :: server where
  "ex_server = \<lparr>srv_cfg = ex_config, srv_store = \<lparr>jobTTL = Hour, queueSize = 1\<rparr>\<rparr>"

definition ex_file :: upload_file where
  "ex_file = \<lparr>up_Filename = ''a.wav'', up_Size = 4, up_reads = [(''RI'', None), (''FF'', Some IoEOF)]\<rparr>"

definition url_document :: string where
  "url_document = url_request_document ''http://h/a'' []"

lemma url_document_short: "length url_document \<le> 2 ^ 20"
  using string_less by (simp add: url_document_def url_request_document_def encode_document_def
      encode.simps encode_string_def escape_body.simps escape_unit_def escape_ascii_def html_def)

lemma url_document_body:
  assumes "hr_body r = [(url_document, None)]"
  shows "url_body r = Some \<lparr>ur_URL = ''http://h/a'', ur_Language = []\<rparr>"
proof -
  note url_document_short
  moreover have "valid_utf8 ''http://h/a'' = ''http://h/a''" by (rule valid_utf8_ascii) simp
  ultimately show ?thesis
    using url_body_read [of r "''http://h/a''" "[]"] assms by (simp add: url_document_def)
qed

definition ex_request :: "(string \<times> string) list \<Rightarrow> http_request" where
  "ex_request hs = \<lparr>hr_method = ''POST'', hr_path = [''transcribe''], hr_headers = hs,
     hr_multipart = (\<lambda>_. Inr \<lparr>form_audio = Inr ex_file, form_values = []\<rparr>),
     hr_body = [(url_document, None)]\<rparr>"

lemma ex_url_body: "url_body (ex_request hs) = Some \<lparr>ur_URL = ''http://h/a'', ur_Language = []\<rparr>"
  by (rule url_document_body) (simp add: ex_request_def)

lemmas api_ex = ex_config_def ex_server_def ex_file_def ex_request_def

lemma ex_route: "route ''POST'' [''transcribe''] = Found Upload []"
  by (simp add: route_def routes_def match_method_def gatewayPrefix_def)

theorem unauthorized_does_nothing_witness:
  "\<exists>resp. run ex_gateway (Handler ex_server (\<lambda>_. None) newJobID (ex_request [])) ()
     = ((resp, accessLog (ex_request []) 401), (), []) \<and> hs_status resp = 401"
proof (rule unauthorized_does_nothing)
  show "route (hr_method (ex_request [])) (hr_path (ex_request [])) = Found Upload []"
    by (simp add: ex_request_def ex_route)
qed (simp_all add: api_ex extractAPIKey_def header_def)

text \<open>The client's key is taken from \<open>X-API-Key\<close> when it is there, whatever
  \<open>Authorization\<close> says; without it, from a bearer token in any letter case of the scheme,
  without the space around it.\<close>

lemma extractAPIKey_sources:
  "(header r ''X-Api-Key'' \<noteq> [] \<longrightarrow> extractAPIKey r = header r ''X-Api-Key'')
   \<and> (\<forall>scheme token. header r ''X-Api-Key'' = [] \<and> header r ''Authorization'' = scheme @ '' '' @ token
        \<and> map lower scheme = ''bearer'' \<and> token \<noteq> [] \<longrightarrow> extractAPIKey r = trim_space token)"
proof -
  have "extractAPIKey r = trim_space token"
    if "header r ''X-Api-Key'' = []" "header r ''Authorization'' = scheme @ '' '' @ token"
      "map lower scheme = ''bearer''" "token \<noteq> []" for scheme token
  proof -
    have l: "length scheme = 6" using arg_cong [OF that(3), of length] by simp
    have b: "map lower bearer_prefix = ''bearer ''"
      by (simp add: bearer_prefix_def lower_def char_of_eq_iff)
    have "take 7 (scheme @ '' '' @ token) = scheme @ '' ''" using l by simp
    moreover have "map lower (scheme @ '' '') = ''bearer ''" using that(3) by (simp add: lower_def)
    moreover have "drop 7 (scheme @ '' '' @ token) = token" using l by simp
    ultimately show ?thesis using that l b
      by (simp add: extractAPIKey_def Let_def bearer_prefix_def equal_fold_def)
  qed
  then show ?thesis by (auto simp: extractAPIKey_def)
qed

lemma extractAPIKey_sources_witness:
  "extractAPIKey (ex_request [(''Authorization'', ''BEARER  key '')]) = ''key''"
proof -
  have "header (ex_request [(''Authorization'', ''BEARER  key '')]) ''Authorization''
      = ''BEARER'' @ '' '' @ '' key ''" by (simp add: ex_request_def header_def)
  moreover have "header (ex_request [(''Authorization'', ''BEARER  key '')]) ''X-Api-Key'' = []"
    by (simp add: ex_request_def header_def)
  moreover have "map lower ''BEARER'' = ''bearer''" by (simp add: lower_def char_of_eq_iff)
  moreover have "trim_space '' key '' = ''key''"
    by (simp add: trim_space_def strip.simps lead_def has_prefix_def space_runes_def)
  ultimately show ?thesis
    using extractAPIKey_sources [of "ex_request [(''Authorization'', ''BEARER  key '')]",
      THEN conjunct2, rule_format, of "''BEARER''" "'' key ''"] by simp
qed

section \<open>Accepting audio\<close>

lemma read_upload_ok:
  "read_upload n acc rs = Inr d \<Longrightarrow> int (length acc) \<le> n
    \<Longrightarrow> d = acc @ body_bytes rs \<and> int (length d) \<le> n"
proof (induction n acc rs rule: read_upload.induct)
  case (2 n acc bs e rs)
  then show ?case
    by (cases e; cases "bs = []") (auto simp: Let_def split: if_splits)
qed simp

text \<open>C35: An upload is accepted whole or not at all: what \<open>handleUpload\<close> keeps is every byte of
  the file part, at most \<open>MAX_AUDIO_BYTES\<close> of them, under the client's file name, whatever
  size the part's header claims; the language is the client's or else the default.\<close>

theorem upload_complete_and_bounded:
  assumes "parse_upload s r = Inr (fn, data, lang)" and "0 \<le> cfg_MaxAudioBytes (srv_cfg s)"
  shows "\<exists>form part. hr_multipart r (upload_limit (srv_cfg s)) = Inr form \<and> form_audio form = Inr part
    \<and> fn = up_Filename part \<and> data = body_bytes (up_reads part)
    \<and> int (length data) \<le> cfg_MaxAudioBytes (srv_cfg s)
    \<and> lang = (if form_value form ''language'' \<noteq> [] then form_value form ''language''
        else cfg_DefaultLanguage (srv_cfg s))"
proof -
  from assms(1) obtain form part where f: "hr_multipart r (upload_limit (srv_cfg s)) = Inr form"
      "form_audio form = Inr part" "fn = up_Filename part"
      "read_upload (cfg_MaxAudioBytes (srv_cfg s)) [] (up_reads part) = Inr data"
      "lang = firstNonEmpty [form_value form ''language'', cfg_DefaultLanguage (srv_cfg s)]"
    by (auto simp: parse_upload_def split: sum.splits if_splits)
  from read_upload_ok [OF f(4)] assms(2) have "data = body_bytes (up_reads part)
      \<and> int (length data) \<le> cfg_MaxAudioBytes (srv_cfg s)" by auto
  with f show ?thesis by (intro exI [of _ form] exI [of _ part]) auto
qed

lemma ex_parse: "parse_upload ex_server (ex_request hs) = Inr (''a.wav'', ''RIFF'', ''pt'')"
  by (simp add: parse_upload_def api_ex form_value_def)

theorem upload_complete_and_bounded_witness:
  "parse_upload ex_server (ex_request []) = Inr (''a.wav'', ''RIFF'', ''pt'')
    \<and> int (length ''RIFF'') \<le> cfg_MaxAudioBytes (srv_cfg ex_server)"
proof -
  have "int (length ''RIFF'') \<le> cfg_MaxAudioBytes (srv_cfg ex_server)"
    using upload_complete_and_bounded [OF ex_parse [of "[]"]] by (auto simp: api_ex)
  with ex_parse [of "[]"] show ?thesis by (rule conjI)
qed

lemma read_upload_error: "read_upload n acc rs = Inl resp \<Longrightarrow> hs_status resp \<in> {400, 413}"
  by (induction n acc rs rule: read_upload.induct)
    (auto simp: Let_def writeError_def writeJSON_def split: if_splits option.splits)

lemma parse_upload_error: "parse_upload s r = Inl resp \<Longrightarrow> hs_status resp \<in> {400, 413}"
  by (auto simp: parse_upload_def writeError_def writeJSON_def dest: read_upload_error
      split: sum.splits if_splits)

text \<open>A request that is refused for its form leaves no trace: when the upload cannot be
  parsed or is too large, or the URL request is not JSON, has no URL or no absolute http(s)
  URL, the handler answers 400 or 413 and performs no operation.\<close>

lemma refused_without_trace:
  "(\<forall>resp. parse_upload s r = Inl resp \<longrightarrow>
       run X (handleUpload s newJobID r) w = (resp, w, []) \<and> hs_status resp \<in> {400, 413})
   \<and> ((\<forall>req. url_body r = Some req \<longrightarrow> \<not> isHTTPURL up (ur_URL req)) \<longrightarrow>
       (\<exists>resp. run X (handleURL s up newJobID r) w = (resp, w, []) \<and> hs_status resp = 400))"
proof (intro conjI allI impI)
  assume h: "\<forall>req. url_body r = Some req \<longrightarrow> \<not> isHTTPURL up (ur_URL req)"
  show "\<exists>resp. run X (handleURL s up newJobID r) w = (resp, w, []) \<and> hs_status resp = 400"
  proof (cases "url_body r")
    case (Some req)
    with h show ?thesis by (simp add: handleURL_def run.simps writeError_def writeJSON_def)
  qed (simp add: handleURL_def run.simps writeError_def writeJSON_def)
qed (simp_all add: handleUpload_def run.simps parse_upload_error [simplified])

lemma refused_without_trace_witness:
  "\<exists>resp. run ex_gateway (handleURL ex_server (\<lambda>_. None) newJobID (ex_request [])) ()
     = (resp, (), []) \<and> hs_status resp = 400"
proof -
  have "\<forall>req. url_body (ex_request []) = Some req \<longrightarrow> \<not> isHTTPURL (\<lambda>_. None) (ur_URL req)"
    by (simp add: isHTTPURL_def)
  then show ?thesis
    using refused_without_trace [of ex_server "ex_request []" ex_gateway "()" "\<lambda>_. None",
      THEN conjunct2] by (rule rev_mp)
qed

section \<open>Enqueueing\<close>

text \<open>The identifier of the request, and what making it does to the world.\<close>

lemma newJobID_external: "only external newJobID"
  by (simp add: newJobID_def split: sum.split)

lemma newJobID_ops: "o' \<in> set (ops (run X newJobID w)) \<Longrightarrow> o' = ORand 16 \<or> o' = ONow"
  by (auto simp: newJobID_def run_simps split: sum.splits)

definition enqueue :: "server \<Rightarrow> string \<Rightarrow> source \<Rightarrow> string \<Rightarrow> string \<Rightarrow> error option prog" where
  "enqueue s jid src jobURL lang = bind (newQueuedJob jid src jobURL lang) (CreateAndEnqueue (srv_store s))"

lemma enqueue_external: "only external (enqueue s jid src u lang)"
  by (auto simp: enqueue_def newQueuedJob_def now_rfc3339_def intro!: only_bind only_store(8))

lemma handleUpload_eq:
  "parse_upload s r = Inr (fn, data, lang) \<Longrightarrow> handleUpload s newID r =
     bind newID (\<lambda>jid. Op (OAlloc data) (\<lambda>d. Op (OPut jid fn (as_slice d)) (\<lambda>_.
       bind (enqueue s jid SourceUpload [] lang) (\<lambda>res.
         case res of Some err \<Rightarrow> Op (ODrop jid) (\<lambda>_. Ret (handleEnqueueError err))
         | None \<Rightarrow> Ret (accepted jid)))))"
  by (simp add: handleUpload_def enqueue_def bind_assoc)

lemma handleEnqueueError_status: "hs_status (handleEnqueueError e) \<in> {429, 500}"
  by (simp add: handleEnqueueError_def writeError_def writeJSON_def)

text \<open>What an upload leaves in the audio store.\<close>

lemma upload_outcome:
  fixes E s r w
  defines "jid \<equiv> result (run (step_op E) newJobID w)"
    and "z \<equiv> run (step_op E) (handleUpload s newJobID r) w"
  assumes "parse_upload s r = Inr (fn, data, lang)"
  shows "(hs_status (result z) = 202
      \<and> (\<exists>q. clip_of (mem (final z)) jid = Some q \<and> Filename (clips (mem (final z)) q) = fn
          \<and> read_slice (Data (clips (mem (final z)) q)) (mem (final z)) = data)
     \<or> hs_status (result z) \<in> {429, 500} \<and> clip_of (mem (final z)) jid = None
      \<and> zeroed (Some (next_buf (mem w))) (mem (final z)))
    \<and> (\<forall>k. k \<noteq> jid \<longrightarrow> clip_of (mem (final z)) k = clip_of (mem w) k)"
proof -
  obtain e where w1: "final (run (step_op E) newJobID w) = w\<lparr>ext := e\<rparr>"
    using only_external [OF newJobID_external, of E w] by (elim exE)
  define c where "c = \<lparr>Filename = fn, Data = Some (next_buf (mem w))\<rparr>"
  define m where "m = Put jid (next_clip (mem w)) (snd (alloc_clip c (snd (alloc_buf data (mem w)))))"
  define w2 where "w2 = w\<lparr>ext := e, mem := m\<rparr>"
  let ?q = "enqueue s jid SourceUpload [] lang"
  obtain e' where w3: "final (run (step_op E) ?q w2) = w2\<lparr>ext := e'\<rparr>"
    using only_external [OF enqueue_external, of E s jid SourceUpload "[]" lang w2] by (elim exE)
  let ?b = "w\<lparr>ext := e, mem := snd (alloc_buf data (mem w))\<rparr>"
  have a: "step_op E (w\<lparr>ext := e\<rparr>) (OAlloc data) = (RSlice (Some (next_buf (mem w))), ?b)"
    and p: "step_op E ?b (OPut jid fn (Some (next_buf (mem w)))) = (RUnit, w2)"
    by (simp_all add: world_simps w2_def m_def c_def Let_def alloc_buf_def alloc_clip_def)
  have z: "result z = (case result (run (step_op E) ?q w2) of
        Some err \<Rightarrow> handleEnqueueError err | None \<Rightarrow> accepted jid)"
    "mem (final z) = (case result (run (step_op E) ?q w2) of Some err \<Rightarrow> Drop jid m | None \<Rightarrow> m)"
    unfolding z_def handleUpload_eq [OF assms(3)]
    by (simp_all add: run_simps w1 w3 a p jid_def [symmetric] world_simps(6) split: option.split)
      (simp_all add: w2_def)
  have clip: "clip_of m jid = Some (next_clip (mem w))" "clips m (next_clip (mem w)) = c"
    "read_slice (Data c) m = data" "\<forall>k. k \<noteq> jid \<longrightarrow> clip_of m k = clip_of (mem w) k"
    by (simp_all add: m_def c_def clip_of_def Put_def alloc_buf_def alloc_clip_def read_slice_def)
  show ?thesis
  proof (cases "result (run (step_op E) ?q w2)")
    case None
    with z clip show ?thesis by (simp add: accepted_def writeJSON_def c_def)
  next
    case (Some err)
    with z clip Drop_zeroes [OF clip(1)] show ?thesis
      using handleEnqueueError_status [of err] by (simp add: clip_of_ops c_def)
  qed
qed

text \<open>C14: An accepted upload can be transcribed, a refused one is gone. After \<open>handleUpload\<close>
  on a well-formed form, in any environment, either the answer is 202 and the store holds
  exactly the uploaded bytes under the new identifier, or it is 429 or 500, the store has
  no entry for the identifier and the bytes are zeroed. No other job's entry changes.\<close>

theorem upload_kept_or_erased:
  fixes E s r w
  defines "jid \<equiv> result (run (step_op E) newJobID w)"
    and "z \<equiv> run (step_op E) (handleUpload s newJobID r) w"
  assumes "parse_upload s r = Inr (fn, data, lang)"
  shows "(hs_status (result z) = 202
      \<and> (\<exists>q. clip_of (mem (final z)) jid = Some q \<and> Filename (clips (mem (final z)) q) = fn
          \<and> read_slice (Data (clips (mem (final z)) q)) (mem (final z)) = data)
     \<or> hs_status (result z) \<in> {429, 500} \<and> clip_of (mem (final z)) jid = None
      \<and> zeroed (Some (next_buf (mem w))) (mem (final z)))
    \<and> (\<forall>k. k \<noteq> jid \<longrightarrow> clip_of (mem (final z)) k = clip_of (mem w) k)"
  using assms(3-) unfolding jid_def z_def by (rule upload_outcome)

text \<open>The random source of the example gives the identifier.\<close>

theorem upload_kept_or_erased_witness:
  "hs_status (result (run (step_op ex_env) (handleUpload ex_server newJobID (ex_request []))
     (ex_world 200))) \<in> {202, 429, 500}"
  using upload_kept_or_erased [OF ex_parse [of "[]"], of ex_env "ex_world 200"] by auto

text \<open>The audio is there before anyone can ask for it: \<open>handleUpload\<close> stores the clip
  before it sends its first command to Redis, and stores nothing after that.\<close>

lemma upload_stored_before_enqueue:
  assumes "parse_upload s r = Inr (fn, data, lang)"
  shows "\<exists>pre a post. ops (run (step_op E) (handleUpload s newJobID r) w)
      = pre @ OPut (result (run (step_op E) newJobID w)) fn (Some a) # post
    \<and> filter redis_op pre = [] \<and> (\<exists>rest. filter redis_op post = OXLen streamKey # rest)
    \<and> (\<forall>j f d. OPut j f d \<notin> set post)"
proof -
  let ?jid = "result (run (step_op E) newJobID w)" and ?w = "final (run (step_op E) newJobID w)"
  let ?a = "next_buf (mem ?w)"
  let ?w1 = "snd (step_op E ?w (OAlloc data))"
  let ?w2 = "snd (step_op E ?w1 (OPut ?jid fn (Some ?a)))"
  let ?k = "bind (enqueue s ?jid SourceUpload [] lang) (\<lambda>res.
         case res of Some err \<Rightarrow> Op (ODrop ?jid) (\<lambda>_. Ret (handleEnqueueError err))
         | None \<Rightarrow> Ret (accepted ?jid))"
  have r: "fst (step_op E ?w (OAlloc data)) = RSlice (Some ?a)"
    by (simp add: world_simps alloc_buf_def Let_def)
  have "ops (run (step_op E) (handleUpload s newJobID r) w)
      = (ops (run (step_op E) newJobID w) @ [OAlloc data]) @ OPut ?jid fn (Some ?a)
        # ops (run (step_op E) ?k ?w2)"
    unfolding handleUpload_eq [OF assms] by (simp add: run_simps(5-)  run_Op_projections r)
  moreover have "filter redis_op (ops (run (step_op E) newJobID w) @ [OAlloc data]) = []"
    by (auto simp: filter_empty_conv dest: newJobID_ops)
  moreover have "\<exists>rest. filter redis_op (ops (run (step_op E) ?k ?w2)) = OXLen streamKey # rest"
    by (simp add: enqueue_def newQueuedJob_def now_rfc3339_def run_simps CreateAndEnqueue_def)
  moreover have "OPut j f d \<notin> set (ops (run (step_op E) ?k ?w2))" for j f d
  proof -
    have "only (\<lambda>o'. \<forall>j f d. o' \<noteq> OPut j f d) ?k"
      by (auto simp: enqueue_def newQueuedJob_def now_rfc3339_def intro!: only_bind only_store(8)
          split: option.split)
    then show ?thesis by (auto dest: only_ops)
  qed
  ultimately show ?thesis by blast
qed

lemma upload_stored_before_enqueue_witness:
  "\<exists>pre a post. ops (run (step_op ex_env) (handleUpload ex_server newJobID (ex_request [])) (ex_world 200))
      = pre @ OPut (result (run (step_op ex_env) newJobID (ex_world 200))) ''a.wav'' (Some a) # post
    \<and> filter redis_op pre = [] \<and> (\<exists>rest. filter redis_op post = OXLen streamKey # rest)
    \<and> (\<forall>j f d. OPut j f d \<notin> set post)"
  by (rule upload_stored_before_enqueue) (rule ex_parse)

lemma enqueue_full:
  assumes "as_intE (fst (X (snd (X w ONow)) (OXLen streamKey))) = Inr n" and "queueSize (srv_store s) \<le> n"
  shows "result (run X (enqueue s jid src u lang) w) = Some ErrQueueFull"
    and "ops (run X (enqueue s jid src u lang) w) = [ONow, OXLen streamKey]"
  using assms
  by (simp_all add: enqueue_def newQueuedJob_def now_rfc3339_def CreateAndEnqueue_def run_simps)

lemma enqueue_asks:
  "(OXLen streamKey, fst (X (snd (X w ONow)) (OXLen streamKey)))
     \<in> set (events (run X (enqueue s jid src u lang) w))"
  by (simp add: enqueue_def newQueuedJob_def now_rfc3339_def CreateAndEnqueue_def run_simps)

lemma handleURL_eq:
  assumes "url_body r = Some req" and "isHTTPURL up (ur_URL req)" and "ur_URL req \<noteq> []"
  shows "handleURL s up newID r = bind newID (\<lambda>jid.
     bind (enqueue s jid SourceURL (ur_URL req)
       (firstNonEmpty [ur_Language req, cfg_DefaultLanguage (srv_cfg s)])) (\<lambda>res.
         case res of Some err \<Rightarrow> Ret (handleEnqueueError err) | None \<Rightarrow> Ret (accepted jid)))"
  using assms by (simp add: handleURL_def enqueue_def bind_assoc)

lemma handleURL_other:
  assumes "\<nexists>req. url_body r = Some req \<and> isHTTPURL up (ur_URL req) \<and> ur_URL req \<noteq> []"
  shows "\<exists>resp. handleURL s up newID r = Ret resp \<and> hs_status resp = 400"
  using assms by (auto simp: handleURL_def writeError_def writeJSON_def split: option.split)

text \<open>C30: Backpressure: when Redis reports a stream at or over \<open>QUEUE_SIZE\<close>, neither endpoint
  writes to Redis, and the answer is 429 with \<open>Retry-After: 30\<close>.\<close>

theorem queue_full_rejected:
  fixes s up r X w h
  defines "z \<equiv> run X h w"
  assumes "h = handleUpload s newJobID r \<or> h = handleURL s up newJobID r"
    and "\<forall>rep. (OXLen streamKey, rep) \<in> set (events z)
      \<longrightarrow> (\<exists>n. as_intE rep = Inr n \<and> queueSize (srv_store s) \<le> n)"
  shows "(\<forall>cs. OTx cs \<notin> set (ops z)) \<and> (OXLen streamKey \<in> set (ops z) \<longrightarrow>
    hs_status (result z) = 429 \<and> (''Retry-After'', ''30'') \<in> set (hs_headers (result z)))"
proof -
  have full: "hs_status (handleEnqueueError ErrQueueFull) = 429"
    "(''Retry-After'', ''30'') \<in> set (hs_headers (handleEnqueueError ErrQueueFull))"
    by (simp_all add: handleEnqueueError_def writeError_def writeJSON_def)
  let ?jid = "result (run X newJobID w)" and ?w = "final (run X newJobID w)"
  have nid: "OTx cs \<notin> set (ops (run X newJobID w))" for cs by (auto dest: newJobID_ops)
  from assms(2) show ?thesis
  proof
    assume h: "h = handleUpload s newJobID r"
    show ?thesis
    proof (cases "parse_upload s r")
      case (Inl resp)
      then show ?thesis by (simp add: z_def h handleUpload_def run_simps)
    next
      case (Inr a)
      obtain fn data lang where p: "parse_upload s r = Inr (fn, data, lang)" using Inr by (cases a) auto
      let ?d = "as_slice (fst (X ?w (OAlloc data)))" and ?w1 = "snd (X ?w (OAlloc data))"
      let ?e = "run X (enqueue s ?jid SourceUpload [] lang) (snd (X ?w1 (OPut ?jid fn ?d)))"
      have "set (events ?e) \<subseteq> set (events z)"
        by (auto simp: z_def h handleUpload_eq [OF p] run_simps)
      with enqueue_asks [of X "snd (X ?w1 (OPut ?jid fn ?d))" s ?jid SourceUpload "[]" lang] assms(3)
      obtain n where "as_intE (fst (X (snd (X (snd (X ?w1 (OPut ?jid fn ?d)))
          ONow)) (OXLen streamKey))) = Inr n" "queueSize (srv_store s) \<le> n" by blast
      with enqueue_full [where w = "snd (X ?w1 (OPut ?jid fn ?d))" and X = X and n = n] full nid show ?thesis
        by (simp add: z_def h handleUpload_eq [OF p] run_simps)
    qed
  next
    assume h: "h = handleURL s up newJobID r"
    show ?thesis
    proof (cases "\<exists>req. url_body r = Some req \<and> isHTTPURL up (ur_URL req) \<and> ur_URL req \<noteq> []")
      case False
      from handleURL_other [OF this, of s newJobID] show ?thesis by (auto simp: z_def h run_simps)
    next
      case True
      then obtain req where q: "url_body r = Some req" "isHTTPURL up (ur_URL req)" "ur_URL req \<noteq> []" by blast
      let ?l = "firstNonEmpty [ur_Language req, cfg_DefaultLanguage (srv_cfg s)]"
      let ?e = "run X (enqueue s ?jid SourceURL (ur_URL req) ?l) ?w"
      have "set (events ?e) \<subseteq> set (events z)"
        by (auto simp: z_def h handleURL_eq [OF q] run_simps)
      with enqueue_asks [of X ?w s ?jid SourceURL "ur_URL req" ?l] assms(3)
      obtain n where "as_intE (fst (X (snd (X ?w
          ONow)) (OXLen streamKey))) = Inr n" "queueSize (srv_store s) \<le> n" by blast
      with enqueue_full [where w = ?w and X = X and n = n] full nid show ?thesis
        by (simp add: z_def h handleURL_eq [OF q] run_simps)
    qed
  qed
qed

text \<open>The example environment with a stream of one entry, and a queue of size one.\<close>

definition ex_full :: "ex_state world" where
  "ex_full = (ex_world 200)\<lparr>ext := (ext (ex_world 200))\<lparr>ex_len := 1\<rparr>\<rparr>"

theorem queue_full_rejected_witness:
  "hs_status (result (run (step_op ex_env) (handleUpload ex_server newJobID (ex_request [])) ex_full)) = 429"
proof -
  let ?z = "run (step_op ex_env) (handleUpload ex_server newJobID (ex_request [])) ex_full"
  have "(OXLen streamKey, RIntE (Inr 1)) \<in> set (events ?z)"
    "\<forall>rep. (OXLen streamKey, rep) \<in> set (events ?z) \<longrightarrow> rep = RIntE (Inr 1)"
    unfolding handleUpload_eq [OF ex_parse]
    by (simp_all add: newJobID_def enqueue_def newQueuedJob_def
        now_rfc3339_def CreateAndEnqueue_def run_unfold ex_full_def ex_world_def init_world_def
        ex_server_def accepted_def alloc_buf_def alloc_clip_def split: option.split)
  then show ?thesis
    using queue_full_rejected [of "handleUpload ex_server newJobID (ex_request [])" ex_server
        "ex_request []" "\<lambda>_. None" "step_op ex_env" ex_full]
    by (force simp: ops_def ex_server_def)
qed

section \<open>Polling\<close>

text \<open>A poll never touches anything: it reads the one hash and answers 404 when it is
  missing or empty, 500 when Redis fails, and otherwise 200 with the state that is stored.\<close>

lemma GetJob_answers:
  fixes X jid w r
  defines "h \<equiv> as_hashE (fst (X w (OHGetAll (jobKey jid))))"
    and "z \<equiv> run X (handleGetJob jid r) w"
  assumes "\<forall>e. h = Inl e \<longrightarrow> \<not> errors_is e ErrNotFound"
  shows "ops z = [OHGetAll (jobKey jid)]
    \<and> result z = (case h of
        Inl _ \<Rightarrow> writeError 500 ''internal error''
      | Inr vals \<Rightarrow> if vals = [] then writeError 404 ''job not found or expired''
          else writeJSON 200 (JObj (jobView (job_of_hash jid vals))))"
proof -
  have "errors_is (ErrWrap s e) ErrNotFound \<longleftrightarrow> errors_is e ErrNotFound" for s e by simp
  then show ?thesis using assms(3)
    unfolding h_def z_def
    by (simp add: handleGetJob_def run_simps run_store_simps result_Get split: sum.splits)
qed

lemma GetJob_answers_witness:
  "result (run (step_op ex_env) (handleGetJob ''j'' (ex_request [])) (ex_world 200))
     = writeJSON 200 (JObj [(''jobId'', JStr ''j''), (''status'', JStr ''queued''),
         (''createdAt'', JStr ''t'')])"
proof -
  let ?h = "as_hashE (fst (step_op ex_env (ex_world 200) (OHGetAll (jobKey ''j''))))"
  have h: "?h = Inr upload_hash" by (simp add: world_simps ex_world_def init_world_def)
  then have "\<forall>e. ?h = Inl e \<longrightarrow> \<not> errors_is e ErrNotFound" by simp
  with GetJob_answers [of "step_op ex_env" "ex_world 200" "''j''" "ex_request []"] h
  show ?thesis
    by (simp add: upload_hash_def job_of_hash_def jobView_def)
qed

section \<open>Logging and routing\<close>

text \<open>The access log shows whether credentials came along, never which: two requests that
  differ only in the values of their credentials leave the same entry.\<close>

lemma accessLog_hides_credentials:
  assumes "hr_method r = hr_method r'" and "hr_path r = hr_path r'"
    and "header r ''User-Agent'' = header r' ''User-Agent''"
    and "header r ''X-Api-Key'' \<noteq> [] \<longleftrightarrow> header r' ''X-Api-Key'' \<noteq> []"
    and "header r ''Authorization'' = scheme @ token" and "header r' ''Authorization'' = scheme @ token'"
    and "length scheme = 7"
  shows "accessLog r status = accessLog r' status"
proof -
  have "has_prefix (map lower (header r ''Authorization'')) ''bearer ''
      \<longleftrightarrow> has_prefix (map lower (header r' ''Authorization'')) ''bearer ''"
    using assms(5-7) by (simp add: has_prefix_def)
  with assms(1-4) show ?thesis by (simp add: accessLog_def)
qed

lemma accessLog_hides_credentials_witness:
  "accessLog (ex_request [(''Authorization'', ''Bearer secret'')]) 202
     = accessLog (ex_request [(''Authorization'', ''Bearer other'')]) 202"
  by (rule accessLog_hides_credentials [where scheme = "''Bearer ''" and token = "''secret''"
      and token' = "''other''"]) (simp_all add: ex_request_def header_def)

definition native :: "string list \<Rightarrow> string list" where
  "native rest = (if rest = [] \<or> rest = [''url''] then ''transcribe'' # rest else rest)"

lemma match_path_Lit: "match_path (Lit s # ps) path = Some vs \<longleftrightarrow>
    (\<exists>xs. path = s # xs \<and> match_path ps xs = Some vs)"
  by (cases path) auto

lemma match_path_Nil: "match_path [] path = Some vs \<longleftrightarrow> path = [] \<and> vs = []"
  by (cases path) auto

lemma match_path_Wild: "match_path [Wild] path = Some vs \<longleftrightarrow> (\<exists>x. x \<noteq> [] \<and> path = [x] \<and> vs = [x])"
  by (cases path; cases "tl path") auto

lemma route_FoundD:
  assumes "route m path = Found e vs"
  shows "\<exists>(pm, pat, e') \<in> set routes. match_path pat path = Some vs \<and> match_method pm m \<and> e' = e"
proof -
  let ?f = "filter (\<lambda>(pm, pat, e). match_method pm m) (filter (\<lambda>(pm, pat, e). match_path pat path \<noteq> None) routes)"
  obtain pm pat e' rest where f: "?f = (pm, pat, e') # rest"
    using assms by (cases ?f) (auto simp: route_def Let_def split: if_splits)
  have "Found e' (case match_path pat path of None \<Rightarrow> [] | Some vs \<Rightarrow> vs) = Found e vs"
    using assms unfolding route_def Let_def f by simp
  moreover have "(pm, pat, e') \<in> set ?f" unfolding f by simp
  then have "(pm, pat, e') \<in> set routes" "match_path pat path \<noteq> None" "match_method pm m" by auto
  ultimately show ?thesis by (intro bexI [of _ "(pm, pat, e')"]) auto
qed

text \<open>C40: The gateway aliases are the native routes under another prefix, and nothing else is
  served: a path under \<open>/v1/audio/transcriptions\<close> reaches the endpoint of the native path,
  for every method, and every request that reaches an endpoint is for \<open>/health\<close>, a native
  path or its alias, with the method of that endpoint.\<close>

theorem gateway_alias:
  "(rest = [] \<or> rest = [''url''] \<or> (\<exists>jid. jid \<noteq> [] \<and> rest = [''jobs'', jid])
      \<longrightarrow> route m (gatewayPrefix @ rest) = route m (native rest))
   \<and> (route m path = Found e vs \<longrightarrow> path = [''health''] \<and> e = Health
      \<or> path \<in> {native [], gatewayPrefix} \<and> e = Upload \<and> m = ''POST''
      \<or> path \<in> {native [''url''], gatewayPrefix @ [''url'']} \<and> e = Url \<and> m = ''POST''
      \<or> (\<exists>jid. path \<in> {native [''jobs'', jid], gatewayPrefix @ [''jobs'', jid]} \<and> vs = [jid]
           \<and> e = GetJob \<and> m \<in> {''GET'', ''HEAD''}))"
proof (intro conjI impI)
  assume "rest = [] \<or> rest = [''url''] \<or> (\<exists>jid. jid \<noteq> [] \<and> rest = [''jobs'', jid])"
  then show "route m (gatewayPrefix @ rest) = route m (native rest)"
    by (elim disjE exE conjE)
      (simp_all add: route_def routes_def gatewayPrefix_def native_def match_method_def)
next
  assume "route m path = Found e vs"
  from route_FoundD [OF this] obtain pm pat where
    "(pm, pat, e) \<in> set routes" "match_path pat path = Some vs" "match_method pm m" by auto
  then show "path = [''health''] \<and> e = Health
      \<or> path \<in> {native [], gatewayPrefix} \<and> e = Upload \<and> m = ''POST''
      \<or> path \<in> {native [''url''], gatewayPrefix @ [''url'']} \<and> e = Url \<and> m = ''POST''
      \<or> (\<exists>jid. path \<in> {native [''jobs'', jid], gatewayPrefix @ [''jobs'', jid]} \<and> vs = [jid]
           \<and> e = GetJob \<and> m \<in> {''GET'', ''HEAD''})"
    unfolding routes_def gatewayPrefix_def list.map append_Cons append_Nil set_simps insert_iff empty_iff
      prod.inject
    by (elim disjE conjE FalseE)
      (simp_all add: match_method_def native_def match_path_Lit match_path_Nil match_path_Wild
        del: match_path.simps, blast+)
qed

theorem gateway_alias_witness:
  "route ''GET'' (gatewayPrefix @ [''jobs'', ''7'']) = route ''GET'' [''jobs'', ''7'']"
  using gateway_alias [of "[''jobs'', ''7'']" "''GET''"] by (simp add: native_def)

end
