(* ===== verification/Redis_Model.thy ===== *)
theory Redis_Model
  imports Service
begin

text \<open>
  What the service relies on in Redis, as the laws of an environment: hashes with a
  deadline, one stream, transactions that run as a whole, and a clock that does not go
  back. Redis and its client are not part of the repository; the laws are their documented
  behaviour, for one instance of the service on a database of its own. Commands may fail;
  a transaction that was not acknowledged may have run or not.
\<close>

section \<open>Data\<close>

type_synonym hashes = "string \<Rightarrow> ((string \<times> string) list \<times> int option) option"

text \<open>The fields a key shows at a time: none from its deadline on.\<close>

definition live :: "int \<Rightarrow> hashes \<Rightarrow> string \<Rightarrow> (string \<times> string) list" where
  "live t b k =
     (case b k of None \<Rightarrow> [] | Some (fs, None) \<Rightarrow> fs | Some (fs, Some dl) \<Rightarrow> if dl \<le> t then [] else fs)"

definition hmerge :: "(string \<times> string) list \<Rightarrow> (string \<times> string) list \<Rightarrow> (string \<times> string) list" where
  "hmerge old new = fold (\<lambda>(f, v) m. AList.update f v m) new old"

definition hset :: "int \<Rightarrow> string \<Rightarrow> (string \<times> string) list \<Rightarrow> hashes \<Rightarrow> hashes" where
  "hset t k fs b = b(k \<mapsto> (hmerge (live t b k) fs,
     if live t b k = [] then None else (case b k of None \<Rightarrow> None | Some (_, dl) \<Rightarrow> dl)))"

text \<open>
  The client sends \<open>EXPIRE\<close> in whole seconds, rounding down, but a positive time below a
  second up to one. A time that is not positive deletes the key.
\<close>

definition expire_ns :: "duration \<Rightarrow> int" where
  "expire_ns d = (if d \<le> 0 then 0 else if d < Second then Second else d div Second * Second)"

definition expire :: "int \<Rightarrow> string \<Rightarrow> int \<Rightarrow> hashes \<Rightarrow> hashes" where
  "expire t k ttl b =
     (if live t b k = [] then b
      else if ttl \<le> 0 then b(k := None)
      else b(k \<mapsto> (live t b k, Some (t + ttl))))"

type_synonym data = "hashes \<times> xmessage list"

fun exec_cmd :: "int \<Rightarrow> string \<Rightarrow> redis_cmd \<Rightarrow> data \<Rightarrow> data" where
  "exec_cmd t nid (HSET k fs) (b, st) = (hset t k fs b, st)"
| "exec_cmd t nid (EXPIRE k d) (b, st) = (expire t k (expire_ns d) b, st)"
| "exec_cmd t nid (XADD k vs) (b, st) =
     (b, if k = streamKey then st @ [\<lparr>x_id = nid, x_values = vs\<rparr>] else st)"
| "exec_cmd t nid (XACK k g i) (b, st) = (b, st)"
| "exec_cmd t nid (XDEL k i) (b, st) =
     (b, if k = streamKey then filter (\<lambda>m. x_id m \<noteq> i) st else st)"

definition exec_tx :: "int \<Rightarrow> string \<Rightarrow> redis_cmd list \<Rightarrow> data \<Rightarrow> data" where
  "exec_tx t nid cs s = fold (exec_cmd t nid) cs s"

lemma exec_tx_simps [simp]:
  "exec_tx t nid [] s = s" "exec_tx t nid (c # cs) s = exec_tx t nid cs (exec_cmd t nid c s)"
  by (simp_all add: exec_tx_def)

lemma map_of_hmerge: "map_of (hmerge old new) = map_of old ++ map_of (rev new)"
proof (induction new arbitrary: old)
  case (Cons fv new)
  then show ?case
    by (cases fv) (auto simp: hmerge_def fun_eq_iff map_add_def split: option.split)
qed (simp add: hmerge_def)

lemma hmerge_nonempty: "new \<noteq> [] \<Longrightarrow> hmerge old new \<noteq> []"
proof (induction new arbitrary: old)
  case (Cons fv new)
  then show ?case by (cases new; cases fv) (simp_all add: hmerge_def split_beta)
qed simp

lemma expire_ns_pos: "0 < d \<Longrightarrow> 0 < expire_ns d"
  by (simp add: expire_ns_def Second_def pos_imp_zdiv_pos_iff)

text \<open>An update of a job: its fields, and a fresh deadline.\<close>

lemma exec_update:
  assumes "fs \<noteq> []" and "0 < jobTTL s"
  shows "exec_tx t nid (update_cmds s jid fs) (b, st) =
    (b(jobKey jid \<mapsto> (hmerge (live t b (jobKey jid)) fs, Some (t + expire_ns (jobTTL s)))), st)"
proof -
  have "live t (hset t (jobKey jid) fs b) (jobKey jid) = hmerge (live t b (jobKey jid)) fs"
    by (auto simp: live_def hset_def split: option.splits)
  then show ?thesis
    using assms expire_ns_pos [of "jobTTL s"]
    by (simp add: update_cmds_def expire_def hmerge_nonempty) (simp add: hset_def)
qed

section \<open>The contract\<close>

fun tx_of :: "op \<Rightarrow> redis_cmd list option" where
  "tx_of (OTx cs) = Some cs"
| "tx_of _ = None"

locale redis_server =
  fixes E :: "'e \<Rightarrow> op \<Rightarrow> reply \<times> 'e"
    and now :: "'e \<Rightarrow> int"
    and db :: "'e \<Rightarrow> hashes"
    and stream :: "'e \<Rightarrow> xmessage list"
    and next_id :: "'e \<Rightarrow> string"
  assumes now_mono: "now e \<le> now (snd (E e o'))"
    and frame: "tx_of o' = None \<Longrightarrow> db (snd (E e o')) = db e \<and> stream (snd (E e o')) = stream e"
    and tx: "fst (E e (OTx cs)) = RErr None \<Longrightarrow> (db (snd (E e (OTx cs))), stream (snd (E e (OTx cs))))
        = exec_tx (now (snd (E e (OTx cs)))) (next_id e) cs (db e, stream e)"
    and hgetall: "fst (E e (OHGetAll k)) = RHashE (Inr fs)
        \<Longrightarrow> fs = live (now (snd (E e (OHGetAll k)))) (db e) k"
    and xlen: "fst (E e (OXLen streamKey)) = RIntE (Inr n) \<Longrightarrow> n = int (length (stream e))"
    and fresh: "next_id e \<notin> x_id ` set (stream e)"

text \<open>
  The transactions of a run, at times that do not decrease, from one state of the data to
  another.
\<close>

definition txs :: "op list \<Rightarrow> redis_cmd list list" where
  "txs os = List.map_filter tx_of os"

lemma txs_simps [simp]:
  "txs [] = []" "txs (o' # os) = (case tx_of o' of None \<Rightarrow> txs os | Some cs \<Rightarrow> cs # txs os)"
  "txs (xs @ ys) = txs xs @ txs ys"
  by (simp_all add: txs_def List.map_filter_def split: option.split)

lemma txs_filter: "txs (filter redis_op os) = txs os"
proof (induction os)
  case (Cons o' os)
  then show ?case by (cases o') simp_all
qed simp

inductive replay :: "int \<Rightarrow> redis_cmd list list \<Rightarrow> data \<Rightarrow> int \<Rightarrow> data \<Rightarrow> bool" where
  finish: "t \<le> t' \<Longrightarrow> replay t [] s t' s"
| transact: "t \<le> t1 \<Longrightarrow> nid \<notin> x_id ` set (snd s) \<Longrightarrow> replay t1 css (exec_tx t1 nid cs s) t' s'
    \<Longrightarrow> replay t (cs # css) s t' s'"

inductive_cases replay_NilE: "replay t [] s t' s'"
inductive_cases replay_ConsE: "replay t (cs # css) s t' s'"

lemma replay_earlier: "replay t css s t' s' \<Longrightarrow> t0 \<le> t \<Longrightarrow> replay t0 css s t' s'"
  by (induction rule: replay.induct) (blast intro: replay.intros order_trans)+

text \<open>Every transaction of a run was acknowledged.\<close>

definition acknowledged :: "event list \<Rightarrow> bool" where
  "acknowledged es \<longleftrightarrow> (\<forall>cs r. (OTx cs, r) \<in> set es \<longrightarrow> r = RErr None)"

context redis_server
begin

abbreviation data_of :: "'e world \<Rightarrow> data" where
  "data_of w \<equiv> (db (ext w), stream (ext w))"

lemma step_other:
  assumes "tx_of o' = None"
  shows "now (ext w) \<le> now (ext (snd (step_op E w o'))) \<and> data_of (snd (step_op E w o')) = data_of w"
proof (cases "external o' \<or> o' = OGate")
  case True
  have "ext (snd (step_op E w OGate)) = snd (E (ext w) OGate)"
    by (simp add: world_simps Let_def split: prod.split)
  with True have "ext (snd (step_op E w o')) = snd (E (ext w) o')"
    by (auto simp: step_op_external)
  then show ?thesis using now_mono frame [OF assms] by simp
next
  case False
  then have "ext (snd (step_op E w o')) = ext w"
    by (cases o') (simp_all add: world_simps Let_def split: prod.split)
  then show ?thesis by simp
qed

lemma step_tx:
  assumes "fst (step_op E w (OTx cs)) = RErr None"
  shows "\<exists>t1 nid. now (ext w) \<le> t1 \<and> t1 = now (ext (snd (step_op E w (OTx cs))))
    \<and> nid \<notin> x_id ` set (stream (ext w)) \<and> data_of (snd (step_op E w (OTx cs))) = exec_tx t1 nid cs (data_of w)"
proof -
  have s: "step_op E w (OTx cs) = (fst (E (ext w) (OTx cs)), w\<lparr>ext := snd (E (ext w) (OTx cs))\<rparr>)"
    by (simp add: step_op_external)
  with assms have "fst (E (ext w) (OTx cs)) = RErr None" by simp
  from tx [OF this] show ?thesis using now_mono [of "ext w" "OTx cs"] fresh [of "ext w"]
    by (intro exI [of _ "now (snd (E (ext w) (OTx cs)))"] exI [of _ "next_id (ext w)"]) (simp add: s)
qed

lemma run_replay:
  "acknowledged (events (run (step_op E) p w)) \<Longrightarrow>
     replay (now (ext w)) (txs (ops (run (step_op E) p w))) (data_of w)
       (now (ext (final (run (step_op E) p w)))) (data_of (final (run (step_op E) p w)))"
proof (induction p arbitrary: w)
  case (Ret x)
  show ?case by (simp add: run_simps replay.finish)
next
  case (Op o' k)
  let ?w = "snd (step_op E w o')" and ?r = "fst (step_op E w o')"
  let ?z = "run (step_op E) (k ?r) ?w"
  from Op.prems have a: "acknowledged (events ?z)"
    by (auto simp: acknowledged_def run_simps)
  have ih: "replay (now (ext ?w)) (txs (ops ?z)) (data_of ?w) (now (ext (final ?z))) (data_of (final ?z))"
    using a by (rule Op.IH [OF rangeI])
  show ?case
  proof (cases "tx_of o'")
    case None
    from step_other [OF this, of w] have st: "now (ext w) \<le> now (ext ?w)" "data_of ?w = data_of w"
      by blast+
    from replay_earlier [OF ih st(1)] st(2) None show ?thesis by (simp add: run_simps)
  next
    case (Some cs)
    then have o': "o' = OTx cs" by (cases o') simp_all
    from Op.prems have "?r = RErr None" by (auto simp: acknowledged_def run_simps o')
    from step_tx [OF this [unfolded o']] obtain nid where
      "now (ext w) \<le> now (ext ?w)" "nid \<notin> x_id ` set (stream (ext w))"
      "data_of ?w = exec_tx (now (ext ?w)) nid cs (data_of w)" unfolding o' by blast
    with ih have "replay (now (ext w)) (cs # txs (ops ?z)) (data_of w) (now (ext (final ?z)))
        (data_of (final ?z))"
      by (intro replay.transact [where nid = nid and ?t1.0 = "now (ext ?w)"]) simp_all
    then show ?thesis by (simp add: run_simps o')
  qed
qed

lemma now_run: "now (ext w) \<le> now (ext (final (run (step_op E) p w)))"
proof (induction p arbitrary: w)
  case (Op o' k)
  have "now (ext w) \<le> now (ext (snd (step_op E w o')))"
  proof (cases "tx_of o'")
    case (Some cs)
    then have "o' = OTx cs" by (cases o') simp_all
    then show ?thesis using now_mono by (simp add: step_op_external)
  qed (use step_other in blast)
  also have "\<dots> \<le> now (ext (final (run (step_op E) (k (fst (step_op E w o'))) (snd (step_op E w o')))))"
    by (rule Op.IH) simp
  finally show ?case by (simp add: run_simps)
qed (simp add: run_simps)

end

section \<open>The contract of a dedicated database\<close>

text \<open>
  More of what is documented: a transaction that was not acknowledged was applied as a whole
  or not at all; the group delivers entries of the stream only (\<open>XAUTOCLAIM\<close> skips deleted
  entries since Redis 7); an identifier is never given out twice.
\<close>

locale dedicated_redis = redis_server E now db stream next_id
  for E :: "'e \<Rightarrow> op \<Rightarrow> reply \<times> 'e" and now db stream next_id +
  fixes used :: "'e \<Rightarrow> string set"
  assumes whole: "(db (snd (E e (OTx cs))), stream (snd (E e (OTx cs)))) = (db e, stream e)
      \<or> (db (snd (E e (OTx cs))), stream (snd (E e (OTx cs))))
        = exec_tx (now (snd (E e (OTx cs)))) (next_id e) cs (db e, stream e)"
    and reads: "fst (E e (OXReadGroup g c streamKey n bl)) = RStreamsE (Inr res)
      \<Longrightarrow> (k, msgs) \<in> set res \<Longrightarrow> set msgs \<subseteq> set (stream e)"
    and claims: "fst (E e (OXAutoClaim streamKey g c idle start n)) = RMessagesE (Inr msgs)
      \<Longrightarrow> set msgs \<subseteq> set (stream e)"
    and used_grows: "used e \<subseteq> used (snd (E e o'))"
    and stream_used: "x_id ` set (stream e) \<subseteq> used e"
    and never_reused: "next_id e \<notin> used e"

text \<open>A Redis that answers every command it is asked.\<close>

definition redis_up :: "('e \<Rightarrow> op \<Rightarrow> reply \<times> 'e) \<Rightarrow> bool" where
  "redis_up E \<longleftrightarrow> (\<forall>e k. \<exists>fs. fst (E e (OHGetAll k)) = RHashE (Inr fs))
     \<and> (\<forall>e cs. fst (E e (OTx cs)) = RErr None)"

lemma redis_up_acknowledged: "redis_up E \<Longrightarrow> acknowledged (events (run (step_op E) p w))"
proof (induction p arbitrary: w)
  case (Op o' k)
  have "r = RErr None" if "o' = OTx cs" "fst (step_op E w o') = r" for cs r
    using Op.prems that by (simp add: redis_up_def step_op_external)
  with Op show ?case by (auto simp: run_simps acknowledged_def)
qed (simp add: run_simps acknowledged_def)

end
