(* ===== verification/Redis_Reference.thy ===== *)
theory Redis_Reference
  imports Redis_Model
begin

text \<open>
  A reference Redis that satisfies the laws of \<open>redis_server\<close>, with a consumer group, and
  an upstream that answers every request with the same status after one second. It makes
  the scenarios and witnesses of the queue concrete; no property of the service is proved
  for it alone unless its statement says so.
\<close>

record redis_state =
  r_now :: int
  r_db :: hashes
  r_stream :: "xmessage list"
  r_new :: "string list"
  r_pending :: "(string \<times> int) list"
  r_seq :: nat
  r_rand :: nat
  r_status :: int

text \<open>Identifiers grow in length, so they are never used twice.\<close>

definition fresh_id :: "redis_state \<Rightarrow> string" where
  "fresh_id s = replicate (Suc (r_seq s + sum_list (map (\<lambda>m. length (x_id m)) (r_stream s)))) (CHR ''1'')"

definition adds :: "redis_cmd list \<Rightarrow> bool" where
  "adds cs \<longleftrightarrow> list_ex (\<lambda>c. case c of XADD k vs \<Rightarrow> k = streamKey | _ \<Rightarrow> False) cs"

definition acked :: "redis_cmd list \<Rightarrow> string \<Rightarrow> bool" where
  "acked cs i \<longleftrightarrow> list_ex (\<lambda>c. case c of XACK k g j \<Rightarrow> j = i | _ \<Rightarrow> False) cs"

definition ref_tx :: "redis_cmd list \<Rightarrow> redis_state \<Rightarrow> redis_state" where
  "ref_tx cs s =
     (let nid = fresh_id s; (b, st) = exec_tx (r_now s) nid cs (r_db s, r_stream s)
      in s\<lparr>r_db := b, r_stream := st,
           r_new := (if adds cs then r_new s @ [nid] else r_new s),
           r_pending := filter (\<lambda>(i, t). \<not> acked cs i) (r_pending s),
           r_seq := (if adds cs then length nid else r_seq s)\<rparr>)"

definition messages :: "redis_state \<Rightarrow> string list \<Rightarrow> xmessage list" where
  "messages s ids = filter (\<lambda>m. x_id m \<in> set ids) (r_stream s)"

definition ref_read :: "string \<Rightarrow> int \<Rightarrow> int \<Rightarrow> redis_state \<Rightarrow> reply \<times> redis_state" where
  "ref_read st n bl s =
     (let ids = take (nat n) (r_new s)
      in if ids = [] then (RStreamsE (Inl RedisNil), s\<lparr>r_now := r_now s + max 0 bl\<rparr>)
         else (RStreamsE (Inr [(st, messages s ids)]),
               s\<lparr>r_new := drop (nat n) (r_new s),
                 r_pending := r_pending s @ map (\<lambda>i. (i, r_now s)) ids\<rparr>))"

definition ref_claim :: "int \<Rightarrow> int \<Rightarrow> redis_state \<Rightarrow> reply \<times> redis_state" where
  "ref_claim idle n s =
     (let ids = take (nat n) (map fst (filter (\<lambda>(i, t). idle \<le> r_now s - t) (r_pending s)))
      in (RMessagesE (Inr (messages s ids)),
          s\<lparr>r_pending := map (\<lambda>(i, t). (i, if i \<in> set ids then r_now s else t)) (r_pending s)\<rparr>))"

fun ref_env :: "redis_state \<Rightarrow> op \<Rightarrow> reply \<times> redis_state" where
  "ref_env s (OXLen k) = (RIntE (Inr (if k = streamKey then int (length (r_stream s)) else 0)), s)"
| "ref_env s (OHGetAll k) = (RHashE (Inr (live (r_now s) (r_db s) k)), s)"
| "ref_env s (OTx cs) = (RErr None, ref_tx cs s)"
| "ref_env s (OXReadGroup g c st n bl) = ref_read st n bl s"
| "ref_env s (OXAutoClaim st g c idle from n) = ref_claim idle n s"
| "ref_env s (OPost req t) =
     (RRespE (Inr \<lparr>resp_status = r_status s, resp_length = 2, resp_body = [(''{}'', None)]\<rparr>),
      s\<lparr>r_now := r_now s + Second\<rparr>)"
| "ref_env s (OGet u t) =
     (RRespE (Inr \<lparr>resp_status = 200, resp_length = 3, resp_body = [(''abc'', None)]\<rparr>),
      s\<lparr>r_now := r_now s + Second\<rparr>)"
| "ref_env s (OSleep n) = (RBool True, s\<lparr>r_now := r_now s + max 0 n\<rparr>)"
| "ref_env s (OTick n) = (RBool True, s\<lparr>r_now := r_now s + max 0 n\<rparr>)"
| "ref_env s OGate = (RBool True, s)"
| "ref_env s ONow = (RInt (r_now s), s)"
| "ref_env s OMemStats = (RInt 0, s)"
| "ref_env s (ORand n) = (RBytesE (Inr (replicate n (char_of (r_rand s)))), s\<lparr>r_rand := Suc (r_rand s)\<rparr>)"
| "ref_env s o' = (RErr None, s)"

definition ref_state :: redis_state where
  "ref_state = \<lparr>r_now = 0, r_db = Map.empty, r_stream = [], r_new = [], r_pending = [], r_seq = 0,
     r_rand = 0, r_status = 200\<rparr>"

lemma fresh_id_fresh: "fresh_id s \<notin> x_id ` set (r_stream s)"
proof
  assume "fresh_id s \<in> x_id ` set (r_stream s)"
  then obtain m where m: "m \<in> set (r_stream s)" "x_id m = fresh_id s" by auto
  from m(1) have "length (x_id m) \<le> sum_list (map (\<lambda>m. length (x_id m)) (r_stream s))"
    by (intro member_le_sum_list) auto
  with m(2) show False by (simp add: fresh_id_def)
qed

lemma ref_tx_data:
  "(r_db (ref_tx cs s), r_stream (ref_tx cs s)) = exec_tx (r_now s) (fresh_id s) cs (r_db s, r_stream s)"
  "r_now (ref_tx cs s) = r_now s"
  by (simp_all add: ref_tx_def Let_def split: prod.split)

interpretation ref: redis_server ref_env r_now r_db r_stream fresh_id
proof
  fix e o'
  show "r_now e \<le> r_now (snd (ref_env e o'))"
    by (cases o') (auto simp: ref_tx_data ref_read_def ref_claim_def Let_def Second_def)
  show "tx_of o' = None \<Longrightarrow> r_db (snd (ref_env e o')) = r_db e \<and> r_stream (snd (ref_env e o')) = r_stream e"
    by (cases o') (auto simp: ref_read_def ref_claim_def Let_def)
qed (simp_all add: ref_tx_data fresh_id_fresh)

lemma ref_laws: "redis_server ref_env r_now r_db r_stream fresh_id"
  by (rule ref.redis_server_axioms)

section \<open>Identifiers that are never reused\<close>

text \<open>
  The same Redis that remembers the length of the longest identifier it ever gave out, so
  that it satisfies the laws of a dedicated database too. In a state whose own counter is
  right it behaves as before.
\<close>

type_synonym numbered = "redis_state \<times> nat"

definition longest :: "numbered \<Rightarrow> nat" where
  "longest x = max (max (snd x) (r_seq (fst x))) (fold max (map (\<lambda>m. length (x_id m)) (r_stream (fst x))) 0)"

definition renumber :: "numbered \<Rightarrow> redis_state" where
  "renumber x = (fst x)\<lparr>r_seq := longest x\<rparr>"

definition num_env :: "numbered \<Rightarrow> op \<Rightarrow> reply \<times> numbered" where
  "num_env x o' = (fst (ref_env (renumber x) o'), (snd (ref_env (renumber x) o'), longest x))"

definition num_used :: "numbered \<Rightarrow> string set" where
  "num_used x = {i. length i \<le> longest x}"

lemma num_env_projections:
  "fst (num_env x o') = fst (ref_env (renumber x) o')" "fst (snd (num_env x o')) = snd (ref_env (renumber x) o')"
  "snd (snd (num_env x o')) = longest x"
  by (simp_all add: num_env_def)

lemma renumber_simps [simp]:
  "r_now (renumber x) = r_now (fst x)" "r_db (renumber x) = r_db (fst x)" "r_stream (renumber x) = r_stream (fst x)"
  by (simp_all add: renumber_def)

lemma fold_max: "fold max (ns :: nat list) k = Max (insert k (set ns))"
  using Max.set_eq_fold [of k ns] by simp

lemma longest_iff:
  "n \<le> longest x \<longleftrightarrow> n \<le> snd x \<or> n \<le> r_seq (fst x) \<or> (\<exists>m \<in> set (r_stream (fst x)). n \<le> length (x_id m)) \<or> n = 0"
  by (auto simp: longest_def fold_max le_max_iff_disj Max_ge_iff)

lemma num_env_sound:
  assumes "n \<le> r_seq s" and "\<forall>m \<in> set (r_stream s). length (x_id m) \<le> r_seq s"
  shows "num_env (s, n) o' = (fst (ref_env s o'), (snd (ref_env s o'), r_seq s))"
proof -
  have "longest (s, n) = r_seq s"
    using assms by (auto simp: longest_def fold_max intro!: antisym)
  then show ?thesis by (simp add: num_env_def renumber_def)
qed

interpretation num: redis_server num_env "\<lambda>x. r_now (fst x)" "\<lambda>x. r_db (fst x)" "\<lambda>x. r_stream (fst x)"
    "\<lambda>x. fresh_id (renumber x)"
proof
  fix e o' cs k fs n
  show "r_now (fst e) \<le> r_now (fst (snd (num_env e o')))"
    using ref.now_mono [of "renumber e" o'] by (simp add: num_env_projections)
  show "tx_of o' = None \<Longrightarrow> r_db (fst (snd (num_env e o'))) = r_db (fst e)
      \<and> r_stream (fst (snd (num_env e o'))) = r_stream (fst e)"
    using ref.frame [of o' "renumber e"] by (simp add: num_env_projections)
  show "fresh_id (renumber e) \<notin> x_id ` set (r_stream (fst e))"
    using fresh_id_fresh [of "renumber e"] by simp
qed (simp_all add: num_env_projections ref_tx_data)

lemma in_messages: "m \<in> set (messages s ids) \<Longrightarrow> m \<in> set (r_stream s)"
  by (auto simp: messages_def)

interpretation num: dedicated_redis num_env "\<lambda>x. r_now (fst x)" "\<lambda>x. r_db (fst x)" "\<lambda>x. r_stream (fst x)"
    "\<lambda>x. fresh_id (renumber x)" num_used
proof
  fix e o' cs g c n bl idle start k msgs res
  show "num_used e \<subseteq> num_used (snd (num_env e o'))"
    by (auto simp: num_used_def longest_iff [of _ "snd (num_env e o')"] num_env_projections)
  show "x_id ` set (r_stream (fst e)) \<subseteq> num_used e"
    by (auto simp: num_used_def longest_iff)
  have "longest e < length (fresh_id (renumber e))"
    by (simp add: fresh_id_def renumber_def)
  then show "fresh_id (renumber e) \<notin> num_used e" by (simp add: num_used_def)
  show "fst (num_env e (OXReadGroup g c streamKey n bl)) = RStreamsE (Inr res) \<Longrightarrow> (k, msgs) \<in> set res
      \<Longrightarrow> set msgs \<subseteq> set (r_stream (fst e))"
    by (auto simp: num_env_projections ref_read_def Let_def dest!: in_messages split: if_splits)
  show "fst (num_env e (OXAutoClaim streamKey g c idle start n)) = RMessagesE (Inr msgs)
      \<Longrightarrow> set msgs \<subseteq> set (r_stream (fst e))"
    by (auto simp: num_env_projections ref_claim_def Let_def dest!: in_messages)
qed (simp_all add: num_env_projections ref_tx_data)

lemma num_laws: "dedicated_redis num_env (\<lambda>x. r_now (fst x)) (\<lambda>x. r_db (fst x)) (\<lambda>x. r_stream (fst x))
    (\<lambda>x. fresh_id (renumber x)) num_used"
  by (rule num.dedicated_redis_axioms)

lemma num_up: "redis_up num_env"
  by (simp add: redis_up_def num_env_projections)

end
