(* ===== verification/Queue_Properties.thy ===== *)
theory Queue_Properties
  imports Api_Properties Redis_Reference
begin

text \<open>
  The properties of the queue: what an accepted job leaves in Redis, what a poll finds when
  it is done, and when a job is lost. They hold for every Redis that obeys the laws of
  \<open>redis_server\<close>, and are shown at work on the reference Redis.
\<close>

lemma as_err_None: "as_err r = None \<Longrightarrow> r = RErr None"
  by (cases r) (simp_all add: bad_reply_def)

section \<open>Enqueueing\<close>

text \<open>What a request asks for: the source of the audio, its URL and the language.\<close>

type_synonym submission = "source \<times> string \<times> string"

definition upload_submission :: "server \<Rightarrow> http_request \<Rightarrow> submission" where
  "upload_submission s r = (SourceUpload, [],
     case parse_upload s r of Inr (filename, data, language) \<Rightarrow> language | Inl _ \<Rightarrow> [])"

definition url_submission :: "server \<Rightarrow> http_request \<Rightarrow> submission" where
  "url_submission s r = (case url_body r of
       Some req \<Rightarrow> (SourceURL, ur_URL req, firstNonEmpty [ur_Language req, cfg_DefaultLanguage (srv_cfg s)])
     | None \<Rightarrow> (SourceURL, [], []))"

text \<open>The record of a new job.\<close>

definition queued_job :: "string \<Rightarrow> submission \<Rightarrow> string \<Rightarrow> job" where
  "queued_job jid sub at = zero_job\<lparr>job_ID := jid, job_Status := StatusQueued, job_Source := fst sub,
     job_URL := fst (snd sub), job_Language := snd (snd sub), job_CreatedAt := at\<rparr>"

lemma enqueue_run:
  assumes "result (run X (enqueue s jid src u l) w) = None"
  shows "\<exists>at. txs (ops (run X (enqueue s jid src u l) w)) = [create_cmds (srv_store s)
      (queued_job jid (src, u, l) at)]
    \<and> acknowledged (events (run X (enqueue s jid src u l) w))"
  using assms
  by (intro exI [of _ "rfc3339 (as_int (fst (X w ONow)))"])
    (auto simp: queued_job_def enqueue_def newQueuedJob_def now_rfc3339_def CreateAndEnqueue_def run_simps acknowledged_def
      dest: as_err_None split: sum.splits if_splits option.splits)

lemma newJobID_txs: "txs (ops (run X newJobID w)) = []" "acknowledged (events (run X newJobID w))"
  by (auto simp: newJobID_def run_simps acknowledged_def split: sum.split)

text \<open>What the two endpoints send when they accept.\<close>

lemma accepted_run:
  assumes "h = handleUpload s newJobID r \<and> sub = upload_submission s r
      \<or> h = handleURL s up newJobID r \<and> sub = url_submission s r"
    and "hs_status (result (run X h w)) = 202"
  shows "\<exists>at. txs (ops (run X h w)) = [create_cmds (srv_store s)
      (queued_job (result (run X newJobID w)) sub at)]
    \<and> acknowledged (events (run X h w)) \<and> result (run X h w) = accepted (result (run X newJobID w))"
proof -
  let ?jid = "result (run X newJobID w)" and ?w = "final (run X newJobID w)"
  have err: "hs_status (handleEnqueueError e) \<noteq> 202" for e
    using handleEnqueueError_status [of e] by auto
  from assms(1) show ?thesis
  proof
    assume "h = handleUpload s newJobID r \<and> sub = upload_submission s r"
    then have h: "h = handleUpload s newJobID r" and sub: "sub = upload_submission s r" by simp_all
    have "parse_upload s r \<noteq> Inl resp" for resp
      using assms(2) parse_upload_error [of s r resp] by (auto simp: h handleUpload_def run_simps)
    then obtain fn data lang where p: "parse_upload s r = Inr (fn, data, lang)"
      by (cases "parse_upload s r") auto
    let ?d = "as_slice (fst (X ?w (OAlloc data)))" and ?w1 = "snd (X ?w (OAlloc data))"
    let ?e = "run X (enqueue s ?jid SourceUpload [] lang) (snd (X ?w1 (OPut ?jid fn ?d)))"
    have n: "result ?e = None"
      using assms(2) err by (auto simp: h handleUpload_eq [OF p] run_simps split: option.splits)
    from enqueue_run [OF n] obtain at where "txs (ops ?e) = [create_cmds (srv_store s)
        (queued_job ?jid (SourceUpload, [], lang) at)]" "acknowledged (events ?e)" by blast
    with n newJobID_txs [of X w] show ?thesis
      by (intro exI [of _ at])
        (auto simp: h sub upload_submission_def p handleUpload_eq [OF p] run_simps acknowledged_def)
  next
    assume "h = handleURL s up newJobID r \<and> sub = url_submission s r"
    then have h: "h = handleURL s up newJobID r" and sub: "sub = url_submission s r" by simp_all
    have "\<exists>req. url_body r = Some req \<and> isHTTPURL up (ur_URL req) \<and> ur_URL req \<noteq> []"
    proof (rule ccontr)
      assume "\<nexists>req. url_body r = Some req \<and> isHTTPURL up (ur_URL req) \<and> ur_URL req \<noteq> []"
      from handleURL_other [OF this, of s newJobID] assms(2) show False by (auto simp: h run_simps)
    qed
    then obtain req where q: "url_body r = Some req" "isHTTPURL up (ur_URL req)" "ur_URL req \<noteq> []" by blast
    let ?l = "firstNonEmpty [ur_Language req, cfg_DefaultLanguage (srv_cfg s)]"
    let ?e = "run X (enqueue s ?jid SourceURL (ur_URL req) ?l) ?w"
    have n: "result ?e = None"
      using assms(2) err by (auto simp: h handleURL_eq [OF q] run_simps split: option.splits)
    from enqueue_run [OF n] obtain at where "txs (ops ?e) = [create_cmds (srv_store s)
        (queued_job ?jid (SourceURL, ur_URL req, ?l) at)]" "acknowledged (events ?e)" by blast
    with n newJobID_txs [of X w] show ?thesis
      by (intro exI [of _ at])
        (auto simp: h sub url_submission_def handleURL_eq [OF q] q(1) run_simps acknowledged_def simp del: firstNonEmpty.simps)
  qed
qed

text \<open>The creating transaction on data without the job.\<close>

lemma exec_create:
  assumes "b (jobKey (job_ID j)) = None"
  shows "snd (exec_tx t nid (create_cmds s j) (b, st)) = st @ [\<lparr>x_id = nid, x_values = [(fieldJobID, job_ID j)]\<rparr>]"
    and "0 < jobTTL s \<Longrightarrow> fst (exec_tx t nid (create_cmds s j) (b, st)) (jobKey (job_ID j))
      = Some ([(''status'', job_Status j), (''source'', job_Source j), (''url'', job_URL j),
         (''language'', job_Language j), (''createdAt'', job_CreatedAt j)], Some (t + expire_ns (jobTTL s)))"
    and "jobTTL s \<le> 0 \<Longrightarrow> fst (exec_tx t nid (create_cmds s j) (b, st)) (jobKey (job_ID j)) = None"
proof -
  have l: "live t b (jobKey (job_ID j)) = []" using assms by (simp add: live_def)
  note defs = create_cmds_def hset_def expire_def l hmerge_def live_def [of t "fun_upd _ _ _"]
  show "snd (exec_tx t nid (create_cmds s j) (b, st)) = st @ [\<lparr>x_id = nid, x_values = [(fieldJobID, job_ID j)]\<rparr>]"
    by (simp add: defs)
  show "fst (exec_tx t nid (create_cmds s j) (b, st)) (jobKey (job_ID j)) = None" if "jobTTL s \<le> 0"
    using that by (simp add: defs expire_ns_def)
  show "fst (exec_tx t nid (create_cmds s j) (b, st)) (jobKey (job_ID j))
      = Some ([(''status'', job_Status j), (''source'', job_Source j), (''url'', job_URL j),
         (''language'', job_Language j), (''createdAt'', job_CreatedAt j)], Some (t + expire_ns (jobTTL s)))"
    if "0 < jobTTL s"
    using that expire_ns_pos [OF that] by (simp add: defs)
qed

text \<open>What an accepted request leaves in Redis.\<close>

lemma accepted_in_redis:
  fixes E h w
  defines "z \<equiv> run (step_op E) h w" and "jid \<equiv> result (run (step_op E) newJobID w)"
  assumes "redis_server E now db stream next_id" and "0 < jobTTL (srv_store s)"
    and "h = handleUpload s newJobID r \<and> sub = upload_submission s r
      \<or> h = handleURL s up newJobID r \<and> sub = url_submission s r"
    and "hs_status (result z) = 202" and "db (ext w) (jobKey jid) = None"
  shows "result z = accepted jid \<and> (\<exists>at fs dl mid. db (ext (final z)) (jobKey jid) = Some (fs, Some dl)
    \<and> now (ext w) + expire_ns (jobTTL (srv_store s)) \<le> dl
    \<and> job_of_hash jid fs = queued_job jid sub at
    \<and> stream (ext (final z)) = stream (ext w) @ [\<lparr>x_id = mid, x_values = [(fieldJobID, jid)]\<rparr>]
    \<and> mid \<notin> x_id ` set (stream (ext w)))"
proof -
  from accepted_run [OF assms(5), of "step_op E" w] assms(6)
  obtain at where t: "txs (ops z) = [create_cmds (srv_store s) (queued_job jid sub at)]"
    and res: "result z = accepted jid" and a: "acknowledged (events z)" unfolding z_def jid_def by blast
  let ?j = "queued_job jid sub at"
  have k: "job_ID ?j = jid" by (simp add: queued_job_def)
  from redis_server.run_replay [OF assms(3), of h w] a t
  obtain t1 nid where t1: "now (ext w) \<le> t1" and nid: "nid \<notin> x_id ` set (stream (ext w))"
    and d: "(db (ext (final z)), stream (ext (final z)))
      = exec_tx t1 nid (create_cmds (srv_store s) ?j) (db (ext w), stream (ext w))"
    unfolding z_def [symmetric] by (auto elim!: replay_ConsE replay_NilE)
  have none: "db (ext w) (jobKey (job_ID ?j)) = None" using assms(7) k by simp
  note e = exec_create [of "db (ext w)" ?j, OF none]
  have "stream (ext (final z)) = stream (ext w) @ [\<lparr>x_id = nid, x_values = [(fieldJobID, jid)]\<rparr>]"
    using e(1) arg_cong [OF d, of snd] k by simp
  moreover have "db (ext (final z)) (jobKey jid) = Some ([(''status'', job_Status ?j), (''source'', job_Source ?j),
      (''url'', job_URL ?j), (''language'', job_Language ?j), (''createdAt'', job_CreatedAt ?j)],
      Some (t1 + expire_ns (jobTTL (srv_store s))))"
    using e(2) [OF assms(4)] arg_cong [OF d, of fst] k by simp
  moreover have "job_of_hash jid [(''status'', job_Status ?j), (''source'', job_Source ?j),
      (''url'', job_URL ?j), (''language'', job_Language ?j), (''createdAt'', job_CreatedAt ?j)] = ?j"
    using job_of_created_hash [of ?j] by (simp add: queued_job_def zero_job_def)
  ultimately show ?thesis using t1 nid res by (intro conjI exI [of _ at] exI) auto
qed

text \<open>C6: An accepted job is in Redis before the client hears of it: when either endpoint answers
  202 with an identifier, the hash under it reads back as the queued job that was asked for
  (source, URL, language), with the full TTL, and the stream has grown by one message that
  names it. (The identifier is fresh, the TTL positive.)\<close>

theorem accepted_job_queued:
  fixes E h w
  defines "z \<equiv> run (step_op E) h w" and "jid \<equiv> result (run (step_op E) newJobID w)"
  assumes "redis_server E now db stream next_id" and "0 < jobTTL (srv_store s)"
    and "h = handleUpload s newJobID r \<and> sub = upload_submission s r
      \<or> h = handleURL s up newJobID r \<and> sub = url_submission s r"
    and "hs_status (result z) = 202" and "db (ext w) (jobKey jid) = None"
  shows "result z = accepted jid \<and> (\<exists>at fs dl mid. db (ext (final z)) (jobKey jid) = Some (fs, Some dl)
    \<and> now (ext w) + expire_ns (jobTTL (srv_store s)) \<le> dl
    \<and> job_of_hash jid fs = queued_job jid sub at
    \<and> stream (ext (final z)) = stream (ext w) @ [\<lparr>x_id = mid, x_values = [(fieldJobID, jid)]\<rparr>]
    \<and> mid \<notin> x_id ` set (stream (ext w)))"
  using assms(3-) unfolding z_def jid_def by (rule accepted_in_redis)

text \<open>The reference Redis, before anything was enqueued.\<close>

definition ref_world :: "redis_state world" where
  "ref_world = init_world ref_state"

lemma ref_url_accepted:
  "hs_status (result (run (step_op ref_env) (handleURL ex_server (\<lambda>_. Some \<lparr>Scheme = ''http'', Host = ''h'', Path = []\<rparr>)
     newJobID (ex_request [])) ref_world)) = 202"
  by (simp add: handleURL_def isHTTPURL_def ex_url_body run_simps newJobID_def newQueuedJob_def
      now_rfc3339_def CreateAndEnqueue_def world_simps ref_world_def init_world_def ref_state_def ex_server_def
      accepted_def writeJSON_def Let_def)

theorem accepted_job_queued_witness:
  "\<exists>fs dl. r_db (ext (final (run (step_op ref_env) (handleURL ex_server (\<lambda>_. Some \<lparr>Scheme = ''http'',
       Host = ''h'', Path = []\<rparr>) newJobID (ex_request [])) ref_world)))
     (jobKey (result (run (step_op ref_env) newJobID ref_world))) = Some (fs, Some dl) \<and> Hour \<le> dl"
proof -
  have "0 < jobTTL (srv_store ex_server)" by (simp add: ex_server_def Hour_def)
  from accepted_job_queued [OF ref_laws this disjI2 [OF conjI [OF refl refl]] ref_url_accepted]
  show ?thesis by (auto simp: ref_world_def init_world_def ref_state_def ex_server_def expire_ns_def Hour_def
      Second_def)
qed

section \<open>Results\<close>

text \<open>The transactions of \<open>handle\<close>, by outcome.\<close>

lemma txs_outcome: "txs (outcome_ops p m oc) =
    (case outcome_fields oc of
       None \<Rightarrow> [ack_cmds (MessageID m)]
     | Some fs \<Rightarrow> [update_cmds (pool_store p) (JobID m) processing_fields,
         update_cmds (pool_store p) (JobID m) fs, ack_cmds (MessageID m)])"
  by (simp add: outcome_ops_def split: option.split)

lemma handle_txs: "\<exists>oc. txs (ops (run X (handle up p m) w)) = txs (outcome_ops p m oc)
    \<and> filter redis_op (ops (run X (handle up p m) w)) = outcome_ops p m oc"
  using handle_redis [of X up p m w] by (metis txs_filter)

lemma completed_outcome:
  assumes "OTx (update_cmds (pool_store p) (JobID m) (completed_fields body at)) \<in> set (outcome_ops p m oc)"
  shows "outcome_fields oc = Some (completed_fields body at)"
  using assms
  by (cases oc) (auto simp: outcome_ops_def update_cmds_def ack_cmds_def completed_fields_def failed_fields_def
      processing_fields_def)

lemma exec_ack: "exec_tx t nid (ack_cmds i) (b, st) = (b, filter (\<lambda>m. x_id m \<noteq> i) st)"
  by (simp add: ack_cmds_def)

text \<open>Two updates of one job and the ack of its message, replayed.\<close>

lemma replay_settled:
  assumes "replay t [update_cmds s jid f1, update_cmds s jid f2, ack_cmds mid] (b0, st0) t' (b', st')"
    and "0 < jobTTL s" and "f1 \<noteq> []" and "f2 \<noteq> []"
  shows "\<exists>t2 b. t \<le> t2 \<and> b' (jobKey jid)
      = Some (hmerge (live t2 b (jobKey jid)) f2, Some (t2 + expire_ns (jobTTL s)))
    \<and> mid \<notin> x_id ` set st'"
proof -
  from assms(1) obtain t1 t2 t3 n1 n2 n3 where "t \<le> t1" "t1 \<le> t2"
    and d: "(b', st') = exec_tx t3 n3 (ack_cmds mid) (exec_tx t2 n2 (update_cmds s jid f2)
        (exec_tx t1 n1 (update_cmds s jid f1) (b0, st0)))"
    by (auto elim!: replay_ConsE replay_NilE)
  from d have "b' (jobKey jid) = Some (hmerge (live t2 (b0(jobKey jid \<mapsto> (hmerge (live t1 b0 (jobKey jid)) f1,
        Some (t1 + expire_ns (jobTTL s))))) (jobKey jid)) f2, Some (t2 + expire_ns (jobTTL s)))"
    "mid \<notin> x_id ` set st'"
    by (auto simp: exec_update assms(2-4) exec_ack)
  with \<open>t \<le> t1\<close> \<open>t1 \<le> t2\<close> show ?thesis by (meson order_trans)
qed

lemma job_of_completed:
  "job_of_hash jid (hmerge fs (completed_fields body at)) =
     (job_of_hash jid fs)\<lparr>job_Status := StatusCompleted, job_Result := body, job_CompletedAt := at\<rparr>"
  by (simp add: job_of_hash_def hget_def map_of_hmerge completed_fields_def)

text \<open>What a poll sees of a completed job.\<close>

lemma completed_readable:
  fixes E up p m w
  defines "z \<equiv> run (step_op E) (handle up p m) w"
  assumes "redis_server E now db stream next_id" and "0 < jobTTL (pool_store p)"
    and "acknowledged (events z)"
    and "OTx (update_cmds (pool_store p) (JobID m) (completed_fields body at)) \<in> set (ops z)"
  shows "\<exists>j dl. job_Status j = StatusCompleted \<and> job_Result j = body
    \<and> now (ext w) + expire_ns (jobTTL (pool_store p)) \<le> dl
    \<and> MessageID m \<notin> x_id ` set (stream (ext (final z)))
    \<and> (\<forall>fs. fst (E (ext (final z)) (OHGetAll (jobKey (JobID m)))) = RHashE (Inr fs)
         \<and> now (snd (E (ext (final z)) (OHGetAll (jobKey (JobID m))))) < dl
         \<longrightarrow> result (run (step_op E) (handleGetJob (JobID m) r) (final z))
             = writeJSON 200 (JObj (jobView j)))"
proof -
  let ?k = "jobKey (JobID m)" and ?s = "pool_store p"
  from handle_txs [of "step_op E" up p m w] obtain oc where
    t: "txs (ops z) = txs (outcome_ops p m oc)" and f: "filter redis_op (ops z) = outcome_ops p m oc"
    unfolding z_def by blast
  have "OTx (update_cmds ?s (JobID m) (completed_fields body at)) \<in> set (filter redis_op (ops z))"
    using assms(5) by simp
  with f have "outcome_fields oc = Some (completed_fields body at)" by (simp add: completed_outcome)
  with t have t: "txs (ops z) = [update_cmds ?s (JobID m) processing_fields,
      update_cmds ?s (JobID m) (completed_fields body at), ack_cmds (MessageID m)]"
    by (simp add: txs_outcome)
  from redis_server.run_replay [OF assms(2), of "handle up p m" w] assms(4)
  have "replay (now (ext w)) (txs (ops z)) (db (ext w), stream (ext w)) (now (ext (final z)))
      (db (ext (final z)), stream (ext (final z)))" unfolding z_def by simp
  then have "replay (now (ext w)) [update_cmds ?s (JobID m) processing_fields,
      update_cmds ?s (JobID m) (completed_fields body at), ack_cmds (MessageID m)]
      (db (ext w), stream (ext w)) (now (ext (final z))) (db (ext (final z)), stream (ext (final z)))"
    unfolding t .
  from replay_settled [OF this assms(3)] obtain t2 b where t2: "now (ext w) \<le> t2"
    and dbz': "db (ext (final z)) ?k
      = Some (hmerge (live t2 b ?k) (completed_fields body at), Some (t2 + expire_ns (jobTTL ?s)))"
    and stz: "MessageID m \<notin> x_id ` set (stream (ext (final z)))"
    by (auto simp: processing_fields_def completed_fields_def)
  define fs where "fs = hmerge (live t2 b ?k) (completed_fields body at)"
  have dbz: "db (ext (final z)) ?k = Some (fs, Some (t2 + expire_ns (jobTTL ?s)))"
    using dbz' by (simp add: fs_def)
  have j: "job_Status (job_of_hash (JobID m) fs) = StatusCompleted" "job_Result (job_of_hash (JobID m) fs) = body"
    by (simp_all add: fs_def job_of_completed)
  have poll: "result (run (step_op E) (handleGetJob (JobID m) r) (final z))
      = writeJSON 200 (JObj (jobView (job_of_hash (JobID m) fs)))"
    if "fst (E (ext (final z)) (OHGetAll ?k)) = RHashE (Inr fs')"
      "now (snd (E (ext (final z)) (OHGetAll ?k))) < t2 + expire_ns (jobTTL ?s)" for fs'
  proof -
    have "fs' = fs" using redis_server.hgetall [OF assms(2) that(1)] that(2) dbz by (simp add: live_def)
    moreover have "fs \<noteq> []" by (simp add: fs_def hmerge_nonempty completed_fields_def)
    ultimately show ?thesis using that(1)
      by (simp add: handleGetJob_def run_simps result_Get step_op_external)
  qed
  show ?thesis
    using j t2 stz poll
    by (intro exI [of _ "job_of_hash (JobID m) fs"] exI [of _ "t2 + expire_ns (jobTTL ?s)"]) auto
qed

text \<open>C9: A completed job can be read. When \<open>handle\<close> stored a result and Redis acknowledged
  its transactions, the message is gone from the stream, the hash has a full TTL from then
  on, and a poll before that deadline that Redis answers shows status completed and the
  result.\<close>

theorem completed_result_readable:
  fixes E up p m w
  defines "z \<equiv> run (step_op E) (handle up p m) w"
  assumes "redis_server E now db stream next_id" and "0 < jobTTL (pool_store p)"
    and "acknowledged (events z)"
    and "OTx (update_cmds (pool_store p) (JobID m) (completed_fields body at)) \<in> set (ops z)"
  shows "\<exists>j dl. job_Status j = StatusCompleted \<and> job_Result j = body
    \<and> now (ext w) + expire_ns (jobTTL (pool_store p)) \<le> dl
    \<and> MessageID m \<notin> x_id ` set (stream (ext (final z)))
    \<and> (\<forall>fs. fst (E (ext (final z)) (OHGetAll (jobKey (JobID m)))) = RHashE (Inr fs)
         \<and> now (snd (E (ext (final z)) (OHGetAll (jobKey (JobID m))))) < dl
         \<longrightarrow> result (run (step_op E) (handleGetJob (JobID m) r) (final z))
             = writeJSON 200 (JObj (jobView j)))"
  using assms(2-) unfolding z_def by (rule completed_readable)

text \<open>A world with one uploaded job, its audio and its message.\<close>

definition ref_loaded :: "redis_state world" where
  "ref_loaded = (init_world (ref_state\<lparr>r_db := [jobKey ''j'' \<mapsto> (upload_hash, Some Hour)],
     r_stream := [\<lparr>x_id = ''1-0'', x_values = [(fieldJobID, ''j'')]\<rparr>]\<rparr>))\<lparr>mem := ex_mem\<rparr>"

lemmas ref_defs = ref_loaded_def ref_state_def init_world_def ref_tx_def exec_tx_def ref_world_def

lemma ref_loaded_run:
  fixes z
  defines "z \<equiv> run (step_op ref_env) (handle (\<lambda>_. None) ex_pool ex_message) ref_loaded"
  shows "OTx (update_cmds (pool_store ex_pool) (JobID ex_message) (completed_fields ''{}'' (rfc3339 Second))) \<in> set (ops z)"
    and "acknowledged (events z)" and "r_now (ext (final z)) = Second"
proof -
  have hour: "\<not> Hour \<le> 0" by (simp add: Hour_def)
  show "OTx (update_cmds (pool_store ex_pool) (JobID ex_message) (completed_fields ''{}'' (rfc3339 Second))) \<in> set (ops z)"
    "acknowledged (events z)" "r_now (ext (final z)) = Second"
    by (simp_all add: z_def handle_unfold run_unfold ex_run ref_defs live_def acknowledged_def ref_tx_data
        prod.case_eq_if hour del: exec_cmd.simps)
qed

theorem completed_result_readable_witness:
  "\<exists>j. job_Result j = ''{}'' \<and> result (run (step_op ref_env) (handleGetJob ''j'' (ex_request []))
      (final (run (step_op ref_env) (handle (\<lambda>_. None) ex_pool ex_message) ref_loaded)))
    = writeJSON 200 (JObj (jobView j))"
proof -
  let ?z = "run (step_op ref_env) (handle (\<lambda>_. None) ex_pool ex_message) ref_loaded"
  have m: "JobID ex_message = ''j''" by (simp add: ex_message_def)
  have ttl: "0 < jobTTL (pool_store ex_pool)" by (simp add: ex_pool_def Hour_def)
  from completed_result_readable [OF ref_laws ttl ref_loaded_run(2,1), of "ex_request []"]
  obtain j dl where j: "job_Result j = ''{}''" and dl: "r_now (ext ref_loaded) + expire_ns (jobTTL (pool_store ex_pool)) \<le> dl"
    and poll: "\<forall>fs. fst (ref_env (ext (final ?z)) (OHGetAll (jobKey (JobID ex_message)))) = RHashE (Inr fs)
      \<and> r_now (snd (ref_env (ext (final ?z)) (OHGetAll (jobKey (JobID ex_message))))) < dl \<longrightarrow>
      result (run (step_op ref_env) (handleGetJob (JobID ex_message) (ex_request [])) (final ?z))
        = writeJSON 200 (JObj (jobView j))" by blast
  have "Second < dl" using dl
    by (simp add: ref_loaded_def init_world_def ref_state_def ex_pool_def expire_ns_def Hour_def Second_def)
  with poll ref_loaded_run(3) have "result (run (step_op ref_env) (handleGetJob (JobID ex_message) (ex_request [])) (final ?z))
      = writeJSON 200 (JObj (jobView j))" by simp
  with j show ?thesis unfolding m by blast
qed

section \<open>Lost jobs\<close>

text \<open>A handler that cannot read its job.\<close>

lemma unread_ops:
  assumes "result (run (step_op E) (Get (JobID m)) (w\<lparr>in_flight := in_flight w + 1\<rparr>)) = Inl e"
  shows "ops (run (step_op E) (handle up p m) w)
    = [OInFlight 1, OHGetAll (jobKey (JobID m)), OTx (ack_cmds (MessageID m)), ODrop (JobID m), OInFlight (- 1)]"
  using assms by (simp add: handle_def handle_body_def run_simps run_store_simps ops_ack world_simps(10))

text \<open>A job whose hash has expired is lost without a word: whatever Redis answers, the
  worker reads the missing state, acks the message and does nothing else. No audio is
  fetched, nothing is sent upstream, no failure is recorded.\<close>

lemma expired_job_lost:
  fixes E up p m w
  assumes "redis_server E now db stream next_id"
    and "live (now (ext w)) (db (ext w)) (jobKey (JobID m)) = []"
  shows "ops (run (step_op E) (handle up p m) w)
    = [OInFlight 1, OHGetAll (jobKey (JobID m)), OTx (ack_cmds (MessageID m)), ODrop (JobID m), OInFlight (- 1)]"
proof -
  let ?k = "jobKey (JobID m)" and ?w = "w\<lparr>in_flight := in_flight w + 1\<rparr>"
  have "now (ext w) \<le> now (snd (E (ext w) (OHGetAll ?k)))" by (rule redis_server.now_mono [OF assms(1)])
  with assms(2) have l: "live (now (snd (E (ext w) (OHGetAll ?k)))) (db (ext w)) ?k = []"
    by (auto simp: live_def split: option.splits if_splits)
  have "\<exists>e. result (run (step_op E) (Get (JobID m)) ?w) = Inl e"
  proof (cases "as_hashE (fst (E (ext w) (OHGetAll ?k)))")
    case (Inr fs)
    then have "fst (E (ext w) (OHGetAll ?k)) = RHashE (Inr fs)"
      by (cases "fst (E (ext w) (OHGetAll ?k))") (simp_all add: bad_reply_def)
    from redis_server.hgetall [OF assms(1) this] l Inr show ?thesis
      by (simp add: result_Get step_op_external)
  qed (simp add: result_Get step_op_external)
  then show ?thesis by (elim exE) (rule unread_ops)
qed

lemma expired_job_lost_witness:
  "ops (run (step_op ref_env) (handle (\<lambda>_. None) ex_pool ex_message) ref_world)
    = [OInFlight 1, OHGetAll (jobKey ''j''), OTx (ack_cmds ''1-0''), ODrop ''j'', OInFlight (- 1)]"
proof -
  have "live (r_now (ext ref_world)) (r_db (ext ref_world)) (jobKey (JobID ex_message)) = []"
    by (simp add: ref_world_def init_world_def ref_state_def live_def)
  from expired_job_lost [OF ref_laws this] show ?thesis by (simp add: ex_message_def)
qed

text \<open>C23: One failed read loses a job. Any error of the read is taken for a missing state, a
  time-out of Redis included: the message is acked and deleted and the audio dropped, while
  the hash still says what it said. The job stays queued until it expires, and nobody will
  process it.\<close>

theorem read_error_loses_job:
  fixes E up p m w
  defines "z \<equiv> run (step_op E) (handle up p m) w"
  assumes "redis_server E now db stream next_id"
    and "fst (E (ext w) (OHGetAll (jobKey (JobID m)))) = RHashE (Inl e)" and "acknowledged (events z)"
  shows "db (ext (final z)) = db (ext w) \<and> MessageID m \<notin> x_id ` set (stream (ext (final z)))
    \<and> clip_of (mem (final z)) (JobID m) = None
    \<and> ops z = [OInFlight 1, OHGetAll (jobKey (JobID m)), OTx (ack_cmds (MessageID m)), ODrop (JobID m), OInFlight (- 1)]"
proof -
  have "result (run (step_op E) (Get (JobID m)) (w\<lparr>in_flight := in_flight w + 1\<rparr>)) = Inl (ErrWrap ''get job: '' e)"
    using assms(3) by (simp add: result_Get step_op_external)
  from unread_ops [OF this, of up p] have o: "ops z = [OInFlight 1, OHGetAll (jobKey (JobID m)),
      OTx (ack_cmds (MessageID m)), ODrop (JobID m), OInFlight (- 1)]" by (simp add: z_def)
  then have "txs (ops z) = [ack_cmds (MessageID m)]" by (simp add: txs_def List.map_filter_simps)
  with redis_server.run_replay [OF assms(2), of "handle up p m" w] assms(4)
  obtain t nid where "(db (ext (final z)), stream (ext (final z)))
      = exec_tx t nid (ack_cmds (MessageID m)) (db (ext w), stream (ext w))"
    unfolding z_def [symmetric] by (auto elim!: replay_ConsE replay_NilE)
  then have "db (ext (final z)) = db (ext w) \<and> MessageID m \<notin> x_id ` set (stream (ext (final z)))"
    by (auto simp: exec_ack)
  moreover have "clip_of (mem (final z)) (JobID m) = None" by (simp add: z_def handle_audio)
  ultimately show ?thesis using o by blast
qed

lemma always_acknowledged:
  "(\<And>e cs. fst (E e (OTx cs)) = RErr None) \<Longrightarrow> acknowledged (events (run (step_op E) p w))"
proof (induction p arbitrary: w)
  case (Op o' k)
  then have "acknowledged (events (run (step_op E) (k (fst (step_op E w o'))) (snd (step_op E w o'))))" by blast
  moreover have "fst (step_op E w o') = RErr None" if "o' = OTx cs" for cs
    using Op.prems by (simp add: that step_op_external)
  ultimately show ?case by (auto simp: acknowledged_def run_simps)
qed (simp add: acknowledged_def run_simps)

text \<open>The reference Redis, with reads that time out.\<close>

fun no_reads :: "redis_state \<Rightarrow> op \<Rightarrow> reply \<times> redis_state" where
  "no_reads s (OHGetAll k) = (RHashE (Inl (ErrExt ''i/o timeout'')), s)"
| "no_reads s o' = ref_env s o'"

lemma no_reads_laws: "redis_server no_reads r_now r_db r_stream fresh_id"
proof
  fix e o'
  show "r_now e \<le> r_now (snd (no_reads e o'))"
    using ref.now_mono [of e o'] by (cases o') simp_all
  show "tx_of o' = None \<Longrightarrow> r_db (snd (no_reads e o')) = r_db e \<and> r_stream (snd (no_reads e o')) = r_stream e"
    using ref.frame [of o' e] by (cases o') simp_all
qed (simp_all add: ref_tx_data fresh_id_fresh)

theorem read_error_loses_job_witness:
  "r_db (ext (final (run (step_op no_reads) (handle (\<lambda>_. None) ex_pool ex_message) ref_loaded))) (jobKey ''j'')
      = Some (upload_hash, Some Hour)
    \<and> ''1-0'' \<notin> x_id ` set (r_stream (ext (final (run (step_op no_reads) (handle (\<lambda>_. None) ex_pool ex_message) ref_loaded))))"
proof -
  let ?z = "run (step_op no_reads) (handle (\<lambda>_. None) ex_pool ex_message) ref_loaded"
  have "acknowledged (events ?z)"
    by (rule always_acknowledged) simp
  from read_error_loses_job [OF no_reads_laws _ this]
  show ?thesis by (simp add: ex_message_def) (simp add: ref_loaded_def init_world_def)
qed

text \<open>C36: With a \<open>JOB_TTL\<close> that is not positive, which \<open>Load\<close> accepts, every job is lost this
  way: the client gets its 202, and the hash is gone in the same transaction, while the
  message stays in the stream.\<close>

theorem nonpositive_ttl_forgets:
  fixes E h w
  defines "z \<equiv> run (step_op E) h w" and "jid \<equiv> result (run (step_op E) newJobID w)"
  assumes "redis_server E now db stream next_id" and "jobTTL (srv_store s) \<le> 0"
    and "h = handleUpload s newJobID r \<and> sub = upload_submission s r
      \<or> h = handleURL s up newJobID r \<and> sub = url_submission s r"
    and "hs_status (result z) = 202" and "db (ext w) (jobKey jid) = None"
  shows "live (now (ext (final z))) (db (ext (final z))) (jobKey jid) = []
    \<and> length (stream (ext (final z))) = Suc (length (stream (ext w)))"
proof -
  from accepted_run [OF assms(5), of "step_op E" w] assms(6)
  obtain at where t: "txs (ops z) = [create_cmds (srv_store s) (queued_job jid sub at)]"
    and res: "result z = accepted jid" and a: "acknowledged (events z)" unfolding z_def jid_def by blast
  let ?j = "queued_job jid sub at"
  have k: "job_ID ?j = jid" by (simp add: queued_job_def)
  from redis_server.run_replay [OF assms(3), of h w] a t
  obtain t1 nid where
    d: "(db (ext (final z)), stream (ext (final z)))
      = exec_tx t1 nid (create_cmds (srv_store s) ?j) (db (ext w), stream (ext w))"
    unfolding z_def [symmetric] by (auto elim!: replay_ConsE replay_NilE)
  have none: "db (ext w) (jobKey (job_ID ?j)) = None" using assms(7) k by simp
  note e = exec_create [of "db (ext w)" ?j, OF none]
  have "db (ext (final z)) (jobKey jid) = None"
    using e(3) [OF assms(4)] arg_cong [OF d, of fst] k by simp
  moreover have "length (stream (ext (final z))) = Suc (length (stream (ext w)))"
    using e(1) arg_cong [OF d, of snd] k by simp
  ultimately show ?thesis by (simp add: live_def)
qed

definition ex_server0 :: server where
  "ex_server0 = ex_server\<lparr>srv_store := \<lparr>jobTTL = 0, queueSize = 1\<rparr>\<rparr>"

theorem nonpositive_ttl_forgets_witness:
  "length (r_stream (ext (final (run (step_op ref_env) (handleURL ex_server0 (\<lambda>_. Some \<lparr>Scheme = ''http'',
       Host = ''h'', Path = []\<rparr>) newJobID (ex_request [])) ref_world)))) = 1"
proof -
  let ?up = "\<lambda>_. Some \<lparr>Scheme = ''http'', Host = ''h'', Path = []\<rparr>"
  have "hs_status (result (run (step_op ref_env) (handleURL ex_server0 ?up newJobID (ex_request [])) ref_world)) = 202"
    by (simp add: handleURL_def isHTTPURL_def ex_url_body run_simps newJobID_def newQueuedJob_def
      now_rfc3339_def CreateAndEnqueue_def world_simps ref_world_def init_world_def ref_state_def ex_server_def
      ex_server0_def accepted_def writeJSON_def Let_def)
  moreover have "jobTTL (srv_store ex_server0) \<le> 0" by (simp add: ex_server0_def)
  ultimately show ?thesis
    using nonpositive_ttl_forgets [OF ref_laws _ disjI2 [OF conjI [OF refl refl]], of ex_server0 ?up "ex_request []" ref_world]
    by (simp add: ref_world_def init_world_def ref_state_def)
qed

end
