(* ===== verification/Scenarios.thy ===== *)
theory Scenarios
  imports System Queue_Properties
begin

text \<open>
  Concrete schedules of the running service over the reference Redis: the machinery to
  execute them, and the states they reach.
\<close>

text \<open>A deployment for the examples: one consumer, a queue of one.\<close>

definition ex_dep :: deployment where
  "ex_dep = \<lparr>dep_pool = ex_pool\<lparr>pool_store := srv_store ex_server, concurrency := 1, pool_window := zero_window\<rparr>, dep_server = ex_server,
     dep_url_path = (\<lambda>_. None),
     dep_url_parse = (\<lambda>_. Some \<lparr>Scheme = ''http'', Host = ''h'', Path = []\<rparr>)\<rparr>"

definition url_request :: http_request where
  "url_request = \<lparr>hr_method = ''POST'', hr_path = [''transcribe'', ''url''],
     hr_headers = [(''X-Api-Key'', ''key'')], hr_multipart = (\<lambda>_. Inl RedisNil),
     hr_body = [(url_document, None)]\<rparr>"

definition upload_request :: http_request where
  "upload_request = ex_request [(''X-Api-Key'', ''key'')]"

abbreviation go :: "nat \<Rightarrow> nat \<Rightarrow> move list" where
  "go n i \<equiv> replicate n (Run_thread i)"

section \<open>Executing a schedule\<close>

lemma exec_run:
  assumes "i < length ps" and "next_op (ps ! i) \<noteq> None" and "\<not> blocked E w (the (next_op (ps ! i)))"
  shows "exec_moves E d (Run_thread i # ms) \<lparr>procs = ps, shared = w\<rparr> = exec_moves E d ms
     \<lparr>procs = ps[i := advance (fst (step_op E w (the (next_op (ps ! i))))) (ps ! i)],
      shared = snd (step_op E w (the (next_op (ps ! i))))\<rparr>"
  using assms by (auto split: prod.split)

lemma exec_arrive: "exec_moves E d (Arrive r # ms) \<lparr>procs = ps, shared = w\<rparr>
    = exec_moves E d ms \<lparr>procs = ps @ [request d r], shared = w\<rparr>"
  by simp

lemma exec_turn: "i < length ps \<Longrightarrow> next_op (ps ! i) = None \<Longrightarrow>
   exec_moves E d (Turn i # ms) \<lparr>procs = ps, shared = w\<rparr>
    = exec_moves E d ms \<lparr>procs = ps[i := settle d (ps ! i)], shared = w\<rparr>"
  by simp

lemmas exec_rules = exec_run exec_arrive exec_turn exec_moves.simps(1)

lemma exec_moves_steps: "exec_moves E d ms c = Some c' \<Longrightarrow> (step E d)\<^sup>*\<^sup>* c c'"
proof (induction ms arbitrary: c)
  case (Cons m ms)
  then show ?case
    by (auto split: option.splits dest!: exec_move_step intro: converse_rtranclp_into_rtranclp)
qed simp

text \<open>
  The transactions of the service and the reads of the group, as updates of the state of
  the reference Redis.
\<close>

lemma ref_tx_create_eq:
  assumes "live (r_now e) (r_db e) (jobKey (job_ID j)) = []" and "0 < jobTTL s"
  shows "ref_tx (create_cmds s j) e = e\<lparr>r_db := (r_db e)(jobKey (job_ID j) \<mapsto> ([(''status'', job_Status j), (''source'', job_Source j), (''url'', job_URL j),
      (''language'', job_Language j), (''createdAt'', job_CreatedAt j)], Some (r_now e + expire_ns (jobTTL s)))),
    r_stream := r_stream e @ [\<lparr>x_id = fresh_id e, x_values = [(fieldJobID, job_ID j)]\<rparr>],
    r_new := r_new e @ [fresh_id e], r_seq := length (fresh_id e)\<rparr>"
proof -
  have "\<not> jobTTL s \<le> 0" "\<not> expire_ns (jobTTL s) \<le> 0" using assms(2) expire_ns_pos [OF assms(2)] by simp_all
  then show ?thesis
    using assms(1)
    by (simp add: ref_tx_def Let_def create_cmds_def adds_def acked_def split_beta hset_def expire_def hmerge_def
      live_def [of "r_now e" "fun_upd _ _ _"])
qed

lemma ref_tx_update_eq:
  assumes "fs \<noteq> []" and "0 < jobTTL s"
  shows "ref_tx (update_cmds s jid fs) e = e\<lparr>r_db := (r_db e)(jobKey jid \<mapsto>
    (hmerge (live (r_now e) (r_db e) (jobKey jid)) fs, Some (r_now e + expire_ns (jobTTL s))))\<rparr>"
  using exec_update [OF assms, of "r_now e" "fresh_id e" jid "r_db e" "r_stream e"]
  by (simp add: ref_tx_def Let_def adds_def acked_def update_cmds_def del: exec_cmd.simps)

lemma ref_tx_ack_eq:
  "ref_tx (ack_cmds i) e = e\<lparr>r_stream := filter (\<lambda>m. x_id m \<noteq> i) (r_stream e),
     r_pending := filter (\<lambda>(j, t). i \<noteq> j) (r_pending e)\<rparr>"
  by (auto simp: ref_tx_def Let_def ack_cmds_def adds_def acked_def intro!: filter_cong)
lemmas ref_tx_rules = ref_tx_create_eq ref_tx_update_eq ref_tx_ack_eq

lemma ref_tx_create_stream: "r_stream (ref_tx (create_cmds s j) e)
    = r_stream e @ [\<lparr>x_id = fresh_id e, x_values = [(fieldJobID, job_ID j)]\<rparr>]"
  by (simp add: ref_tx_def Let_def create_cmds_def split_beta)

lemma ref_read_one: "r_new s = i # is \<Longrightarrow> ref_read st 1 bl s = (RStreamsE (Inr [(st, messages s [i])]),
   s\<lparr>r_new := is, r_pending := r_pending s @ [(i, r_now s)]\<rparr>)"
  by (simp add: ref_read_def Let_def)

lemma live_upd: "live t (b(k \<mapsto> (fs, Some dl))) k = (if dl \<le> t then [] else fs)"
  by (simp add: live_def)

lemma live_empty: "live t Map.empty k = []"
  by (simp add: live_def)

text \<open>A program is evaluated at its head only: what follows an operation waits for the reply.\<close>

lemma Op_lazy: "o' = o'' \<Longrightarrow> Op o' k = Op o'' k" by simp
lemma bind_lazy: "p = q \<Longrightarrow> bind p f = bind q f" by simp

lemma list_update_numeral: "(x # xs)[numeral k := y] = x # xs[pred_numeral k := y]"
  by (simp add: numeral_eq_Suc)

lemma replicate_code: "replicate (numeral k) x = x # replicate (pred_numeral k) x"
  by (simp add: numeral_eq_Suc)

section \<open>The threads of the scenarios\<close>

lemma ex_key: "extractAPIKey url_request = ''key''" "extractAPIKey upload_request = ''key''"
  by (simp_all add: extractAPIKey_def url_request_def upload_request_def ex_request_def header_def)

lemma ex_routes: "route ''POST'' [''transcribe'', ''url''] = Found Url []"
  "route ''POST'' [''transcribe''] = Found Upload []"
  by (simp_all add: route_def routes_def match_method_def gatewayPrefix_def)

lemma url_thread: "request ex_dep url_request = Request (bind newJobID (\<lambda>jid.
     bind (enqueue ex_server jid SourceURL ''http://h/a'' ''pt'') (\<lambda>res.
       bind (case res of Some err \<Rightarrow> Ret (handleEnqueueError err) | None \<Rightarrow> Ret (accepted jid))
         (\<lambda>resp. Ret (resp, accessLog url_request (hs_status resp))))))"
proof -
  have "handleURL ex_server (dep_url_parse ex_dep) newJobID url_request = bind newJobID (\<lambda>jid.
     bind (enqueue ex_server jid SourceURL ''http://h/a'' ''pt'') (\<lambda>res.
         case res of Some err \<Rightarrow> Ret (handleEnqueueError err) | None \<Rightarrow> Ret (accepted jid)))"
    by (subst handleURL_eq [where req = "\<lparr>ur_URL = ''http://h/a'', ur_Language = []\<rparr>"])
      (simp_all add: url_request_def url_document_body isHTTPURL_def ex_dep_def, simp add: ex_server_def ex_config_def)
  moreover have "hr_method url_request = ''POST''" "hr_path url_request = [''transcribe'', ''url'']"
    by (simp_all add: url_request_def)
  ultimately have "dispatch ex_server (dep_url_parse ex_dep) newJobID url_request
     = bind newJobID (\<lambda>jid. bind (enqueue ex_server jid SourceURL ''http://h/a'' ''pt'') (\<lambda>res.
         case res of Some err \<Rightarrow> Ret (handleEnqueueError err) | None \<Rightarrow> Ret (accepted jid)))"
    by (simp add: dispatch_def ex_routes auth_def ex_key) (simp add: ex_server_def ex_config_def)
  then show ?thesis by (simp add: request_def Handler_def ex_dep_def bind_assoc)
qed

lemma upload_thread: "request ex_dep upload_request = Request (bind newJobID (\<lambda>jid.
     Op (OAlloc ''RIFF'') (\<lambda>d. Op (OPut jid ''a.wav'' (as_slice d)) (\<lambda>_.
     bind (enqueue ex_server jid SourceUpload [] ''pt'') (\<lambda>res.
       bind (case res of Some err \<Rightarrow> Op (ODrop jid) (\<lambda>_. Ret (handleEnqueueError err))
             | None \<Rightarrow> Ret (accepted jid))
         (\<lambda>resp. Ret (resp, accessLog upload_request (hs_status resp))))))))"
proof -
  have "hr_method upload_request = ''POST''" "hr_path upload_request = [''transcribe'']"
    by (simp_all add: upload_request_def ex_request_def)
  then have "dispatch ex_server (dep_url_parse ex_dep) newJobID upload_request
     = handleUpload ex_server newJobID upload_request"
    by (simp add: dispatch_def ex_routes auth_def ex_key) (simp add: ex_server_def ex_config_def)
  then show ?thesis
    unfolding upload_request_def handleUpload_eq [OF ex_parse]
    by (simp add: request_def Handler_def ex_dep_def bind_assoc)
qed

lemma init_ex: "init_sys ex_dep e = \<lparr>procs = [iteration ex_dep (Consumer ''worker-0'') False,
   iteration ex_dep (Claimer ''claimer'') False], shared = init_world e\<rparr>"
proof -
  have "char_of (48 :: nat) = CHR ''0''" by (simp add: char_of_eq_iff)
  then show ?thesis
   by (simp add: init_sys_def Run_def ex_dep_def show_int_def digits10.simps)
qed

lemma open_zero: "IsOpen zero_window t"
  by (simp add: IsOpen_def zero_window_def Enabled_def)

lemma ex_dep_sel: "dep_url_path ex_dep = (\<lambda>_. None)"
  "dep_pool ex_dep = ex_pool\<lparr>pool_store := srv_store ex_server, concurrency := 1, pool_window := zero_window\<rparr>"
  by (simp_all add: ex_dep_def)

lemma ex_reachable: "exec_moves ref_env ex_dep ms (init_sys ex_dep ref_state) = Some c \<Longrightarrow> reachable ref_env ex_dep c"
  by (rule exec_moves_reachable [OF reachable.start])

text \<open>The identifier of the first job, and the error of an upload whose audio is gone.\<close>

definition ex_jid :: string where
  "ex_jid = hex [char_of (0 :: nat), char_of (0 :: nat), char_of (0 :: nat), char_of (0 :: nat),
     char_of (0 :: nat), char_of (0 :: nat), char_of (0 :: nat), char_of (0 :: nat),
     char_of (0 :: nat), char_of (0 :: nat), char_of (0 :: nat), char_of (0 :: nat),
     char_of (0 :: nat), char_of (0 :: nat), char_of (0 :: nat), char_of (0 :: nat)]"

definition lost_audio :: error where
  "lost_audio = ErrNew ''uploaded audio no longer in memory (instance restarted?)''"

lemma fetchAudio_upload:
  "job_Source j = SourceUpload \<Longrightarrow> fetchAudio up p jid j = Op (OTake jid) (\<lambda>r.
     case as_clip r of None \<Rightarrow> Ret (Inl lost_audio) | Some c \<Rightarrow> Ret (Inr c))"
  by (simp add: fetchAudio_def lost_audio_def cong: option.case_cong)

lemmas goroutine_unfold = iteration_def goroutine_iter_def consume_iter_def claim_iter_def
  handle_def handle_body_def handle_job_def handle_result_def fail_def ack_def
  nowRFC3339_def fetchAudio_upload transcribeWithRetry_def transcribe_loop_0 attempt_call_def
  Transcribe_def response_result_def store_defs toXMessages_def job_of_hash_def status_defs
  source_defs processing_fields_def failed_fields_def completed_fields_def pool_constants

lemmas request_unfold = url_thread upload_thread newJobID_def enqueue_def newQueuedJob_def
  now_rfc3339_def accepted_def writeJSON_def ex_jid_def [symmetric]

lemmas memory_unfold = Take_def Put_def alloc_clip_def alloc_buf_def NewStore_def

lemmas scenario_rules = exec_rules list_update_numeral replicate_code blocked_def world_simps
  ref_tx_rules ref_read_one ref_claim_def messages_def fresh_id_def live_upd live_empty hmerge_def
  prod.case_eq_if Let_def ex_dep_sel ex_server_def ex_pool_def open_zero
  expire_ns_def Hour_def Minute_def Second_def goroutine_unfold request_unfold memory_unfold

section \<open>Two requests at once\<close>

definition race :: "move list" where
  "race = [Arrive url_request, Arrive url_request] @ go 3 2 @ go 3 3 @ go 1 2 @ go 1 3"

lemma race_result:
  "\<exists>c resp1 resp2. exec_moves ref_env ex_dep race (init_sys ex_dep ref_state) = Some c
    \<and> length (r_stream (ext (shared c))) = 2
    \<and> procs c ! 2 = Request (Ret resp1) \<and> hs_status (fst resp1) = 202
    \<and> procs c ! 3 = Request (Ret resp2) \<and> hs_status (fst resp2) = 202"
  unfolding init_ex race_def unfolding init_world_def ref_state_def
  by (simp add: scenario_rules ref_tx_create_stream cong: Op_lazy bind_lazy del: exec_moves.simps(2))

section \<open>A job that is claimed while it is being transcribed\<close>

text \<open>
  An upload arrives and the consumer takes it up to the upstream call. Two minutes later
  the claimer takes the same message. Then the upstream call returns.
\<close>

definition pickup :: "move list" where
  "pickup = [Arrive upload_request] @ go 6 2 @ go 10 0"

definition reclaim :: "move list" where
  "reclaim = concat (replicate 3 (go 3 1 @ [Turn 1])) @ go 10 1"

definition finish :: "move list" where
  "finish = go 6 0"

lemma pickup_result:
  "\<exists>c req t. exec_moves ref_env ex_dep pickup (init_sys ex_dep ref_state) = Some c
    \<and> next_op (procs c ! 0) = Some (OPost req t) \<and> 0 < length (procs c) \<and> gate (shared c)"
  unfolding init_ex pickup_def unfolding init_world_def ref_state_def
  by (simp add: scenario_rules cong: Op_lazy bind_lazy del: exec_moves.simps(2))

abbreviation stored :: "redis_state sys \<Rightarrow> string \<Rightarrow> string" where
  "stored c \<equiv> hget (live (r_now (ext (shared c))) (r_db (ext (shared c))) (jobKey ex_jid))"

lemma reclaim_result:
  "\<exists>c1 c2 req t. exec_moves ref_env ex_dep (pickup @ reclaim) (init_sys ex_dep ref_state) = Some c1
    \<and> next_op (procs c1 ! 0) = Some (OPost req t) \<and> r_stream (ext (shared c1)) = []
    \<and> in_flight (shared c1) = 2 \<and> stored c1 ''status'' = StatusFailed
    \<and> exec_moves ref_env ex_dep finish c1 = Some c2 \<and> stored c2 ''status'' = StatusCompleted
    \<and> stored c2 ''error'' = error_text (ErrWrap ''fetch audio: '' lost_audio)"
  unfolding init_ex pickup_def reclaim_def finish_def
  unfolding init_world_def ref_state_def
  by (simp add: scenario_rules cong: Op_lazy bind_lazy del: exec_moves.simps(2))

end
