(* ===== verification/System_Properties.thy ===== *)
theory System_Properties
  imports Scenarios
begin

text \<open>
  The properties of the running service, with all goroutines interleaved: what holds in
  every reachable state, whatever the environment answers, and the schedules on which the
  service does not keep what its comments promise.
\<close>

section \<open>States the scenarios reach\<close>

lemma posting_state: "\<exists>c req t. reachable ref_env ex_dep c \<and> 0 < length (procs c)
    \<and> next_op (procs c ! 0) = Some (OPost req t) \<and> gate (shared c)"
  using pickup_result ex_reachable by meson

lemma claimed_state: "\<exists>c. reachable ref_env ex_dep c \<and> in_flight (shared c) = 2"
  using reclaim_result ex_reachable by meson

section \<open>The gate and the counter\<close>

text \<open>C7: At most one transcription is on its way to the upstream: in every reachable state at
  most one goroutine is in an upstream call, and it holds the gate. This is for any number
  of workers and requests and any environment.\<close>

theorem one_upstream_call:
  assumes "reachable E d c" and "i < length (procs c)" and "j < length (procs c)"
    and "next_op (procs c ! i) = Some (OPost req t)" and "next_op (procs c ! j) = Some (OPost req' t')"
  shows "i = j \<and> gate (shared c)"
proof -
  from counters.reachable_holds [OF assms(1)] obtain ms where ok: "list_all2 thread_ok ms (procs c)"
    and n: "length (filter fst ms) = (if gate (shared c) then 1 else 0)"
    by (auto simp: counters.holds_def agree_def)
  have il: "i < length ms" "j < length ms" using ok assms(2,3) by (simp_all add: list_all2_lengthD)
  have h: "fst (ms ! i)" "fst (ms ! j)"
    using posting_holds [OF list_all2_nthD [OF ok il(1)] assms(4)]
      posting_holds [OF list_all2_nthD [OF ok il(2)] assms(5)] by simp_all
  have "ms ! i \<in> set (filter fst ms)" using h(1) il(1) by simp
  then have "0 < length (filter fst ms)" by (rule length_pos_if_in_set)
  with n have "gate (shared c)" by (simp split: if_splits)
  moreover have "i = j" using n by (intro one_holder [OF _ il h]) simp
  ultimately show ?thesis by simp
qed

theorem one_upstream_call_witness:
  "\<exists>c req t. reachable ref_env ex_dep c \<and> next_op (procs c ! 0) = Some (OPost req t) \<and> gate (shared c)"
proof -
  from posting_state obtain c req t where c: "reachable ref_env ex_dep c" "0 < length (procs c)"
    "next_op (procs c ! 0) = Some (OPost req t)" by blast
  from one_upstream_call [OF c(1,2,2,3,3)] have "gate (shared c)" by simp
  with c show ?thesis by blast
qed

text \<open>C21: The in-flight counter that \<open>/health\<close> reports is exact up to the claimer: it is never
  negative and never more than \<open>MAX_CONCURRENCY\<close> plus one.\<close>

theorem in_flight_bounds:
  assumes "reachable E d c"
  shows "0 \<le> in_flight (shared c) \<and> in_flight (shared c) \<le> max 0 (concurrency (dep_pool d)) + 1"
proof -
  from counters.reachable_holds [OF assms] obtain ms where ok: "list_all2 thread_ok ms (procs c)"
    and n: "in_flight (shared c) = sum_list (map snd ms)" by (auto simp: counters.holds_def agree_def)
  have "0 \<le> sum_list (map snd ms) \<and> sum_list (map snd ms) \<le> int (length (filter is_loop (procs c)))"
    using ok
  proof (induction rule: list_all2_induct)
    case (Cons m ms t ts)
    then show ?case by (cases t) (auto simp: is_loop_def)
  qed simp
  moreover have "int (length (filter is_loop (procs c))) \<le> max 0 (concurrency (dep_pool d)) + 1"
    using reachable_loops [OF assms] by (simp add: length_Run)
  ultimately show ?thesis using n by simp
qed

theorem in_flight_bounds_witness:
  "\<exists>c. reachable ref_env ex_dep c \<and> in_flight (shared c) = concurrency (dep_pool ex_dep) + 1
    \<and> in_flight (shared c) \<le> max 0 (concurrency (dep_pool ex_dep)) + 1"
proof -
  from claimed_state obtain c where c: "reachable ref_env ex_dep c" "in_flight (shared c) = 2" by blast
  moreover have "concurrency (dep_pool ex_dep) = 1" by (simp add: ex_dep_sel)
  ultimately show ?thesis using in_flight_bounds [OF c(1)] by (intro exI [of _ c]) simp
qed

text \<open>The gate cannot be lost: when a goroutine waits for it, another one holds it and can
  move, being about to send its request or to release the gate. No goroutine ends, and none
  sleeps or talks to Redis, while it holds the gate.\<close>

lemma gate_never_stuck:
  assumes "reachable E d c" and "gate (shared c)"
  shows "\<exists>j o'. j < length (procs c) \<and> next_op (procs c ! j) = Some o' \<and> \<not> blocked E (shared c) o'
    \<and> (o' = OGateRelease \<or> (\<exists>req t. o' = OPost req t))"
  using counters.reachable_holds [OF assms(1)] holder_exists [OF _ assms(2)] by metis

lemma gate_never_stuck_witness:
  "\<exists>c j o'. reachable ref_env ex_dep c \<and> next_op (procs c ! j) = Some o' \<and> \<not> blocked ref_env (shared c) o'"
proof -
  from posting_state obtain c where c: "reachable ref_env ex_dep c" "gate (shared c)" by blast
  from gate_never_stuck [OF this] c(1) show ?thesis by blast
qed

section \<open>Where the comments promise more\<close>

text \<open>C28: The cap of the queue is not enforced atomically: \<open>CreateAndEnqueue\<close> asks for the length
  in one command and adds in another. Over a Redis that keeps every law, two requests that
  arrive together are both accepted into a queue of one.\<close>

theorem enqueue_race_exceeds_cap:
  "redis_server ref_env r_now r_db r_stream fresh_id \<and>
   (\<exists>c resp1 resp2. reachable ref_env ex_dep c
     \<and> queueSize (srv_store (dep_server ex_dep)) = 1 \<and> length (r_stream (ext (shared c))) = 2
     \<and> procs c ! 2 = Request (Ret resp1) \<and> hs_status (fst resp1) = 202
     \<and> procs c ! 3 = Request (Ret resp2) \<and> hs_status (fst resp2) = 202)"
proof -
  have q: "queueSize (srv_store (dep_server ex_dep)) = 1" by (simp add: ex_dep_def ex_server_def)
  from race_result obtain c resp1 resp2 where
    "exec_moves ref_env ex_dep race (init_sys ex_dep ref_state) = Some c"
    "length (r_stream (ext (shared c))) = 2"
    "procs c ! 2 = Request (Ret resp1) \<and> hs_status (fst resp1) = 202"
    "procs c ! 3 = Request (Ret resp2) \<and> hs_status (fst resp2) = 202" by blast
  with ex_reachable q ref_laws show ?thesis by blast
qed

text \<open>C27: The claimer takes jobs that are alive: a message idle for two minutes is claimed even
  while its worker waits for the upstream, whose time-out may be longer. For an upload the
  second handler finds no audio and declares the job failed, acks and deletes the message, while
  the first one is still in its upstream call and two messages count as in flight with
  \<open>MAX_CONCURRENCY\<close> one; when that call succeeds the terminal state is overwritten: the
  job is completed and still shows the error.\<close>

theorem live_upload_declared_failed:
  "redis_server ref_env r_now r_db r_stream fresh_id \<and>
   (\<exists>c1 c2 req t. reachable ref_env ex_dep c1
     \<and> next_op (procs c1 ! 0) = Some (OPost req t) \<and> r_stream (ext (shared c1)) = []
     \<and> in_flight (shared c1) = 2 \<and> concurrency (dep_pool ex_dep) = 1
     \<and> stored c1 ''status'' = StatusFailed
     \<and> (step ref_env ex_dep)\<^sup>*\<^sup>* c1 c2 \<and> stored c2 ''status'' = StatusCompleted
     \<and> stored c2 ''error'' = ''fetch audio: uploaded audio no longer in memory (instance restarted?)'')"
proof -
  have n: "concurrency (dep_pool ex_dep) = 1" by (simp add: ex_dep_sel)
  have e: "error_text (ErrWrap ''fetch audio: '' lost_audio)
    = ''fetch audio: uploaded audio no longer in memory (instance restarted?)''"
    by (simp add: lost_audio_def)
  from reclaim_result obtain c1 c2 req t where
    r: "exec_moves ref_env ex_dep (pickup @ reclaim) (init_sys ex_dep ref_state) = Some c1"
    and post: "next_op (procs c1 ! 0) = Some (OPost req t)" and "r_stream (ext (shared c1)) = []"
    "in_flight (shared c1) = 2" "stored c1 ''status'' = StatusFailed"
    and s: "exec_moves ref_env ex_dep finish c1 = Some c2"
    and "stored c2 ''status'' = StatusCompleted"
    "stored c2 ''error'' = error_text (ErrWrap ''fetch audio: '' lost_audio)" by blast
  with n e ex_reachable [OF r] exec_moves_steps [OF s] ref_laws show ?thesis by metis
qed

end
