(* ===== verification/Ownership.thy ===== *)
theory Ownership
  imports System
begin

text \<open>
  Who may touch which audio buffer. A goroutine holds the buffers it allocated and has not
  yet handed to the store, and those it took out of the store. It reads and zeroes none
  but these. The store's well-formedness and the exclusiveness of the buffers follow for
  every reachable state of the service.
\<close>

section \<open>Holding buffers\<close>

record holding =
  fresh :: "nat set"
  taken :: "nat set"

definition held :: "holding \<Rightarrow> nat set" where
  "held h = fresh h \<union> taken h"

definition slice_in :: "nat option \<Rightarrow> nat set \<Rightarrow> bool" where
  "slice_in s A \<longleftrightarrow> (case s of None \<Rightarrow> True | Some a \<Rightarrow> a \<in> A)"

definition slice_set :: "nat option \<Rightarrow> nat set" where
  "slice_set s = (case s of None \<Rightarrow> {} | Some a \<Rightarrow> {a})"

text \<open>
  \<open>permits h o'\<close>: a goroutine that holds \<open>h\<close> may perform \<open>o'\<close>; \<open>gain h o' r\<close>: what it
  holds after the reply.
\<close>

fun permits :: "holding \<Rightarrow> op \<Rightarrow> bool" where
  "permits h (OPut j f s) = slice_in s (fresh h)"
| "permits h (OReadSlice s) = slice_in s (held h)"
| "permits h (OZeroSlice s) = slice_in s (held h)"
| "permits h o' = True"

fun gain :: "holding \<Rightarrow> op \<Rightarrow> reply \<Rightarrow> holding" where
  "gain h (OAlloc bs) r = h\<lparr>fresh := fresh h \<union> slice_set (as_slice r)\<rparr>"
| "gain h (OTake j) r = (case as_clip r of
      None \<Rightarrow> h | Some (f, s) \<Rightarrow> h\<lparr>taken := taken h \<union> slice_set s\<rparr>)"
| "gain h (OPut j f s) r = \<lparr>fresh = fresh h - slice_set s, taken = taken h - slice_set s\<rparr>"
| "gain h o' r = h"

text \<open>
  \<open>owns h p Q\<close>: run by a goroutine that holds \<open>h\<close>, \<open>p\<close> keeps to what it holds on every
  path, and ends with a holding and a result in \<open>Q\<close>.
\<close>

primrec owns :: "holding \<Rightarrow> 'a prog \<Rightarrow> (holding \<Rightarrow> 'a \<Rightarrow> bool) \<Rightarrow> bool" where
  "owns h (Ret x) Q \<longleftrightarrow> Q h x"
| "owns h (Op o' k) Q \<longleftrightarrow> permits h o' \<and> (\<forall>r. owns (gain h o' r) (k r) Q)"

lemma owns_bind: "owns h (bind p f) Q \<longleftrightarrow> owns h p (\<lambda>h' x. owns h' (f x) Q)"
  by (induction p arbitrary: h) simp_all

lemma owns_mono: "owns h p Q \<Longrightarrow> (\<And>h' x. Q h' x \<Longrightarrow> Q' h' x) \<Longrightarrow> owns h p Q'"
  by (induction p arbitrary: h) auto

text \<open>Operations that do not concern the audio.\<close>

fun silent :: "op \<Rightarrow> bool" where
  "silent (OAlloc bs) = False"
| "silent (OTake j) = False"
| "silent (OPut j f s) = False"
| "silent (OReadSlice s) = False"
| "silent (OZeroSlice s) = False"
| "silent o' = True"

lemma silent_gain: "silent o' \<Longrightarrow> permits h o' \<and> gain h o' r = h"
  by (cases o') simp_all

lemma owns_silent: "only silent p \<Longrightarrow> (\<And>x. Q h x) \<Longrightarrow> owns h p Q"
  by (induction p) (auto simp: silent_gain)

lemma only_silent [safe_ops]:
  "only silent (Get jid)" "only silent (ack m)" "only silent (update_job s jid fs)"
  "only silent nowRFC3339" "only silent (fail p m e)" "only silent (Read c n b)"
  "only silent (Claim c i k)" "only silent newJobID" "only silent (newQueuedJob jid src u l)"
  "only silent (CreateAndEnqueue st j)" "only silent (handleHealth sv r)"
  "only silent (handleGetJob jid r)" "only silent (handleURL sv up newJobID r)"
proof -
  show g: "only silent (Get jid)" and u: "only silent (update_job s jid fs)"
    and "only silent (Read c n b)" "only silent (Claim c i k)" for jid s fs
    by (simp_all add: only_store)
  show a: "only silent (ack m)" by (simp add: ack_def only_bind only_store)
  show n: "only silent nowRFC3339" by (simp add: nowRFC3339_def)
  show "only silent (fail p m e)"
    unfolding fail_def SetFailed_def by (intro only_bind n u a)
  show nid: "only silent newJobID" by (auto simp: newJobID_def split: sum.split)
  show nq: "only silent (newQueuedJob jid src u l)" for jid src u l
    by (simp add: newQueuedJob_def now_rfc3339_def)
  show cr: "only silent (CreateAndEnqueue st j)" for st j
    by (rule only_store(8)) simp_all
  show "only silent (handleHealth sv r)"
    by (auto simp: handleHealth_def QueueLen_def Ping_def Let_def)
  show "only silent (handleGetJob jid r)"
    unfolding handleGetJob_def by (auto intro!: only_bind g split: sum.split)
  show "only silent (handleURL sv up newJobID r)"
    unfolding handleURL_def Let_def by (auto intro!: only_bind nid cr nq split: sum.split option.split)
qed

section \<open>The programs keep to what they hold\<close>

lemma owns_Transcribe:
  "slice_in s (held h) \<Longrightarrow> (\<And>x. Q h x) \<Longrightarrow> owns h (Transcribe c f s l) Q"
  by (auto simp: Transcribe_def split: option.split)

lemma owns_loop: "slice_in s (held h) \<Longrightarrow> (\<And>x. Q h x) \<Longrightarrow> owns h (transcribe_loop p f s l k e) Q"
proof (induction p f s l k e rule: transcribe_loop.induct)
  case (1 p f s l k e)
  have "owns h (bind (Transcribe (pool_whisper p) f s l) (\<lambda>res.
      case res of Inr body \<Rightarrow> Ret (Inr body)
      | Inl err \<Rightarrow> if \<not> IsTransient err then Ret (Inl err)
          else transcribe_loop p f s l (Suc k) err)) Q" if "k \<le> maxRetries"
    using that 1 unfolding owns_bind by (auto intro!: owns_Transcribe split: sum.split)
  then show ?case using 1(3) by (subst transcribe_loop.simps) (simp add: Let_def)
qed

lemma held_gain: "slice_in s (held (h\<lparr>fresh := fresh h \<union> slice_set s\<rparr>))"
  "slice_in s (held (h\<lparr>taken := taken h \<union> slice_set s\<rparr>))"
  by (auto simp: slice_in_def slice_set_def held_def split: option.split)

lemma owns_fetchAudio:
  assumes "\<And>h' e. Q h' (Inl e)" and "\<And>h' f s. slice_in s (held h') \<Longrightarrow> Q h' (Inr (f, s))"
  shows "owns h (fetchAudio up p jid j) Q"
  using assms
  by (auto simp: fetchAudio_def download_def held_gain split: option.split sum.split)

lemma owns_handle: "(\<And>h'. Q h' ()) \<Longrightarrow> owns h (handle up p m) Q"
proof -
  assume q: "\<And>h'. Q h' ()"
  have sl: "owns h' r Q'" if "only silent r" "\<And>x. Q' h' x" for h' Q' and r :: "'z prog"
    using that by (rule owns_silent)
  have res: "owns h' (handle_result p m s res) (\<lambda>_ _. True)" if "slice_in s (held h')" for h' s res
    using that unfolding handle_result_def SetCompleted_def
    by (auto simp: owns_bind intro!: owns_silent only_silent split: sum.split)
  have job: "owns h' (handle_job up p m j) (\<lambda>_ _. True)" for h' j
    unfolding handle_job_def SetProcessing_def Let_def transcribeWithRetry_def owns_bind
    by (rule owns_silent, rule only_silent, rule owns_fetchAudio)
      (auto intro!: owns_silent only_silent owns_loop res simp: owns_bind)
  have "owns h' (handle_body up p m) (\<lambda>_ _. True)" for h'
    unfolding handle_body_def owns_bind
    by (rule owns_silent, rule only_silent) (auto intro!: owns_silent only_silent job split: sum.split)
  then show ?thesis
    by (auto simp: handle_def exec1_def owns_bind q intro: owns_mono)
qed

lemma owns_handle_all: "(\<And>h'. Q h' ()) \<Longrightarrow> owns h (handle_all up p ms) Q"
  by (induction ms arbitrary: h) (simp_all add: owns_bind owns_handle)

lemma owns_iteration: "owns h (goroutine_iter up p g closed) (\<lambda>_ _. True)"
  unfolding goroutine_iter_def consume_iter_def claim_iter_def
  by (auto simp: owns_bind intro!: owns_silent only_silent owns_handle_all
      split: goroutine.split sum.split)

lemma owns_handleUpload: "owns h (handleUpload s newJobID r) (\<lambda>_ _. True)"
proof -
  have f: "slice_in x (A \<union> slice_set x)" for x A
    by (auto simp: slice_in_def slice_set_def split: option.split)
  show ?thesis
    unfolding handleUpload_def owns_bind
    by (auto simp: f owns_bind intro!: owns_silent only_silent split: sum.split option.split)
qed

lemma owns_Handler: "owns h (Handler s up newJobID r) (\<lambda>_ _. True)"
proof -
  have "owns h (dispatch s up newJobID r) (\<lambda>_ _. True)"
    unfolding dispatch_def auth_def Let_def
    by (auto intro!: owns_handleUpload owns_silent only_silent split: routed.split endpoint.split)
  then show ?thesis unfolding Handler_def owns_bind by (rule owns_mono) simp
qed

section \<open>The invariant\<close>

fun thread_owns :: "holding \<Rightarrow> thread \<Rightarrow> bool" where
  "thread_owns h (Loop g p) \<longleftrightarrow> owns h p (\<lambda>_ _. True)"
| "thread_owns h (Request p) \<longleftrightarrow> owns h p (\<lambda>_ _. True)"
| "thread_owns h Done \<longleftrightarrow> True"

text \<open>
  A fresh buffer is in no clip, a taken one in no clip of the store; no two goroutines hold
  the same buffer.
\<close>

definition holding_ok :: "audio_mem \<Rightarrow> holding \<Rightarrow> bool" where
  "holding_ok m h \<longleftrightarrow> (\<forall>a \<in> held h. a < next_buf m)
     \<and> (\<forall>a \<in> fresh h. \<forall>p. Data (clips m p) \<noteq> Some a)
     \<and> (\<forall>a \<in> taken h. \<forall>(j, p) \<in> set (clip_map m). Data (clips m p) \<noteq> Some a)"

definition exclusive :: "holding list \<Rightarrow> 'e world \<Rightarrow> bool" where
  "exclusive hs w \<longleftrightarrow> mem_ok (mem w) \<and> (\<forall>h \<in> set hs. holding_ok (mem w) h)
     \<and> (\<forall>i j. i < length hs \<longrightarrow> j < length hs \<longrightarrow> i \<noteq> j \<longrightarrow> held (hs ! i) \<inter> held (hs ! j) = {})"

text \<open>What one operation does to the store, to its goroutine and to any other one.\<close>

definition kept :: "holding \<Rightarrow> holding \<Rightarrow> audio_mem \<Rightarrow> audio_mem \<Rightarrow> bool" where
  "kept h h' m m' \<longleftrightarrow> mem_ok m' \<and> holding_ok m' h'
     \<and> (\<forall>g. holding_ok m g \<and> held g \<inter> held h = {} \<longrightarrow> holding_ok m' g \<and> held g \<inter> held h' = {})"

lemma kept_same: "mem_ok m \<Longrightarrow> holding_ok m h \<Longrightarrow> kept h h m m"
  by (simp add: kept_def)

lemma kept_alloc:
  assumes "mem_ok m" and "holding_ok m h"
  shows "kept h (h\<lparr>fresh := fresh h \<union> {next_buf m}\<rparr>) m (snd (alloc_buf bs m))"
proof -
  have "Data (clips m p) \<noteq> Some (next_buf m)" for p
    using assms(1) by (auto simp: mem_ok_def)
  with assms show ?thesis
    by (simp add: kept_def mem_ok_alloc_buf)
      (auto simp: holding_ok_def held_def alloc_buf_def less_Suc_eq)
qed

lemma kept_drop:
  assumes "mem_ok m" and "holding_ok m h"
  shows "kept h h m (Drop j m)"
proof -
  have d: "Data (clips (Drop j m) p) = Some a \<Longrightarrow> Data (clips m p) = Some a" for p a
    by (auto simp: Drop_def Zero_def Let_def split: option.splits if_splits)
  have n: "next_buf (Drop j m) = next_buf m" by (simp add: Drop_def Let_def)
  have "holding_ok (Drop j m) g" if "holding_ok m g" for g
    using that d by (fastforce simp: holding_ok_def n dest: set_delete_sub)
  with assms show ?thesis by (simp add: kept_def mem_ok_Drop)
qed

lemma kept_zero:
  assumes "mem_ok m" and "holding_ok m h"
  shows "kept h h m (zero_slice s m)"
  using assms by (simp add: kept_def mem_ok_zero_slice holding_ok_def)

lemma deleted_key: "(k, q) \<in> set (AList.delete j m) \<Longrightarrow> k \<noteq> j"
  by (induction m) (auto split: if_splits)

lemma kept_take:
  assumes "mem_ok m" and "holding_ok m h"
  shows "kept h (case clip_of m j of None \<Rightarrow> h
      | Some p \<Rightarrow> h\<lparr>taken := taken h \<union> slice_set (Data (clips m p))\<rparr>) m (snd (Take j m))"
proof -
  have t: "clips (snd (Take j m)) = clips m" "next_buf (snd (Take j m)) = next_buf m"
    "clip_map (snd (Take j m)) = AList.delete j (clip_map m)" by (simp_all add: Take_def)
  have o: "holding_ok (snd (Take j m)) g" if "holding_ok m g" for g
    using that by (fastforce simp: holding_ok_def t dest: set_delete_sub)
  show ?thesis
  proof (cases "clip_of m j")
    case None
    with assms o show ?thesis by (simp add: kept_def mem_ok_Take)
  next
    case (Some p)
    then have jp: "(j, p) \<in> set (clip_map m)" by (simp add: clip_of_def map_of_SomeD)
    have free: "Data (clips m q) \<noteq> Some a"
      if "Data (clips m p) = Some a" "(k, q) \<in> set (AList.delete j (clip_map m))" for a k q
    proof
      assume "Data (clips m q) = Some a"
      with that(1) assms(1) have "q = p" by (auto simp: mem_ok_def)
      moreover have "(k, q) \<in> set (clip_map m)" using that(2) by (rule set_delete_sub)
      moreover have "inj_on snd (set (clip_map m))" using assms(1) by (simp add: mem_ok_def distinct_map)
      ultimately have "(k, q) = (j, p)" using jp by (intro inj_onD [where f = snd]) auto
      with that(2) show False by (auto dest: deleted_key)
    qed
    have a: "a < next_buf m" "\<And>g. holding_ok m g \<Longrightarrow> a \<notin> held g" if "Data (clips m p) = Some a" for a
      using that assms(1) jp by (auto simp: mem_ok_def holding_ok_def held_def)
    let ?h = "h\<lparr>taken := taken h \<union> slice_set (Data (clips m p))\<rparr>" and ?m = "snd (Take j m)"
    have new: "x \<in> held ?h \<longleftrightarrow> x \<in> held h \<or> Data (clips m p) = Some x" for x
      by (auto simp: held_def slice_set_def split: option.splits)
    have "holding_ok ?m ?h"
      unfolding holding_ok_def
    proof (intro conjI ballI)
      fix x assume "x \<in> held ?h"
      with new a(1) assms(2) show "x < next_buf ?m" by (auto simp: t holding_ok_def)
    next
      fix x assume "x \<in> fresh ?h"
      with assms(2) show "\<forall>p. Data (clips ?m p) \<noteq> Some x" by (simp add: t holding_ok_def)
    next
      fix x y assume x: "x \<in> taken ?h" and y: "y \<in> set (clip_map ?m)"
      then consider "x \<in> taken h" | "Data (clips m p) = Some x"
        by (auto simp: slice_set_def split: option.splits)
      then show "case y of (k, q) \<Rightarrow> Data (clips ?m q) \<noteq> Some x"
      proof cases
        case 1
        with o [OF assms(2)] y show ?thesis by (simp add: holding_ok_def)
      next
        case 2
        with free y show ?thesis by (cases y) (simp add: t)
      qed
    qed
    moreover have "held g \<inter> held ?h = {}" if "holding_ok m g" "held g \<inter> held h = {}" for g
      using that a(2) new by blast
    ultimately show ?thesis using o assms(1) Some by (simp add: kept_def mem_ok_Take)
  qed
qed

lemma kept_put:
  assumes "mem_ok m" and "holding_ok m h" and "slice_in s (fresh h)"
  shows "kept h \<lparr>fresh = fresh h - slice_set s, taken = taken h - slice_set s\<rparr> m
    (Put j (next_clip m) (snd (alloc_clip \<lparr>Filename = f, Data = s\<rparr> m)))"
proof -
  let ?m1 = "snd (alloc_clip \<lparr>Filename = f, Data = s\<rparr> m)" and ?p = "next_clip m"
  let ?m = "Put j ?p ?m1" and ?h = "\<lparr>fresh = fresh h - slice_set s, taken = taken h - slice_set s\<rparr>"
  have s: "a < next_buf m \<and> (\<forall>p. Data (clips m p) \<noteq> Some a)" if "s = Some a" for a
    using assms(2,3) that by (simp add: slice_in_def holding_ok_def held_def)
  have ok1: "mem_ok ?m1" by (rule mem_ok_alloc_clip [OF assms(1)]) (simp add: s)
  have "?p \<notin> snd ` set (clip_map m)" using assms(1) by (auto simp: mem_ok_def)
  then have ok: "mem_ok ?m" by (intro mem_ok_Put [OF ok1]) (simp_all add: alloc_clip_def)
  have t: "clips ?m q = (if q = ?p then \<lparr>Filename = f, Data = s\<rparr> else clips m q)" "next_buf ?m = next_buf m" for q
    by (simp_all add: Put_def alloc_clip_def)
  have old: "(k, q) \<in> set (clip_map m)" if "(k, q) \<in> set (clip_map ?m)" "q \<noteq> ?p" for k q
    using that by (auto simp: Put_def alloc_clip_def dest: set_update_sub)
  have o: "holding_ok ?m g" if g: "holding_ok m g" "held g \<inter> slice_set s = {}" for g
    unfolding holding_ok_def
  proof (intro conjI ballI allI)
    fix x assume "x \<in> held g"
    with g(1) show "x < next_buf ?m" by (simp add: holding_ok_def t)
  next
    fix x q assume "x \<in> fresh g"
    with g show "Data (clips ?m q) \<noteq> Some x" by (auto simp: holding_ok_def held_def slice_set_def t)
  next
    fix x y assume x: "x \<in> taken g" and y: "y \<in> set (clip_map ?m)"
    obtain k q where kq: "y = (k, q)" by (cases y)
    have "Data (clips ?m q) \<noteq> Some x"
    proof (cases "q = ?p")
      case True
      with g(2) x show ?thesis by (auto simp: t held_def slice_set_def)
    next
      case False
      with old y kq have "(k, q) \<in> set (clip_map m)" by blast
      with g(1) x False show ?thesis by (auto simp: t holding_ok_def)
    qed
    then show "case y of (k, q) \<Rightarrow> Data (clips ?m q) \<noteq> Some x" by (simp add: kq)
  qed
  have h: "held ?h = held h - slice_set s" by (auto simp: held_def)
  have "holding_ok m ?h" using assms(2) by (simp add: holding_ok_def h)
  with o h have "holding_ok ?m ?h" by blast
  moreover have sub: "slice_set s \<subseteq> held h"
    using assms(3) by (auto simp: slice_set_def slice_in_def held_def split: option.splits)
  moreover have "holding_ok ?m g \<and> held g \<inter> held ?h = {}" if "holding_ok m g" "held g \<inter> held h = {}" for g
    using o [OF that(1)] that(2) sub unfolding h by blast
  ultimately show ?thesis using ok by (simp add: kept_def)
qed

text \<open>One operation of a goroutine that keeps to what it holds.\<close>

lemma kept_step:
  assumes "permits h o'" and "step_op E w o' = (r, w')" and ok: "mem_ok (mem w)" "holding_ok (mem w) h"
  shows "kept h (gain h o' r) (mem w) (mem w')"
proof (cases "external o'")
  case True
  then have "gain h o' r = h" "mem w' = mem w"
    using assms(2) by (cases o'; simp add: step_op_external; fail | auto simp: step_op_external)+
  with ok show ?thesis by (simp add: kept_same)
next
  case False
  then show ?thesis
  proof (cases o')
    case (OAlloc bs)
    with assms(2) show ?thesis
      using kept_alloc [OF ok, of bs] by (auto simp: world_simps slice_set_def alloc_buf_def)
  next
    case (OPut j f s)
    with assms show ?thesis
      using kept_put [OF ok, of s j f] by (auto simp: world_simps alloc_clip_def)
  next
    case (OTake j)
    with assms(2) show ?thesis
      using kept_take [OF ok, of j]
      by (cases "clip_of (mem w) j") (auto simp: world_simps Take_def clip_of_def)
  next
    case (ODrop j)
    with assms(2) show ?thesis using kept_drop [OF ok, of j] by (auto simp: world_simps)
  next
    case (OZeroSlice s)
    with assms(2) show ?thesis using kept_zero [OF ok, of s] by (auto simp: world_simps)
  qed (use assms(2) kept_same [OF ok] in \<open>auto simp: world_simps Let_def split: prod.splits if_splits\<close>)
qed

lemma thread_owns_advance:
  "thread_owns h t \<Longrightarrow> next_op t = Some o' \<Longrightarrow> permits h o' \<and> thread_owns (gain h o' r) (advance r t)"
  by (cases t rule: next_op.cases) auto

lemma exclusive_perform:
  assumes i: "i < length hs" and ex: "exclusive hs w" and "thread_owns (hs ! i) t" and "next_op t = Some o'"
    and "step_op E w o' = (r, w')"
  shows "\<exists>h'. thread_owns h' (advance r t) \<and> exclusive (hs[i := h']) w'"
proof -
  let ?h = "gain (hs ! i) o' r"
  from thread_owns_advance [OF assms(3,4), of r]
  have p: "permits (hs ! i) o'" and t: "thread_owns ?h (advance r t)" by simp_all
  have ok: "mem_ok (mem w)" "\<And>j. j < length hs \<Longrightarrow> holding_ok (mem w) (hs ! j)"
    using ex by (simp_all add: exclusive_def)
  have k: "kept (hs ! i) ?h (mem w) (mem w')" by (rule kept_step [OF p assms(5) ok(1) ok(2) [OF i]])
  have other: "holding_ok (mem w') (hs ! j) \<and> held (hs ! j) \<inter> held ?h = {}"
    if "j < length hs" "j \<noteq> i" for j
  proof -
    from ex that i have "held (hs ! j) \<inter> held (hs ! i) = {}" by (simp add: exclusive_def)
    with k ok(2) [OF that(1)] show ?thesis by (simp add: kept_def)
  qed
  have "holding_ok (mem w') (hs[i := ?h] ! j)" if "j < length hs" for j
    using that other [of j] k by (cases "j = i") (simp_all add: kept_def)
  then have "\<forall>h \<in> set (hs[i := ?h]). holding_ok (mem w') h"
    by (metis in_set_conv_nth length_list_update)
  moreover have "held (hs[i := ?h] ! j) \<inter> held (hs[i := ?h] ! l) = {}"
    if "j < length hs" "l < length hs" "j \<noteq> l" for j l
  proof -
    consider "j = i" | "l = i" | "j \<noteq> i \<and> l \<noteq> i" by blast
    then show ?thesis
    proof cases
      case 1
      with that other [of l] show ?thesis by (simp add: Int_commute)
    next
      case 2
      with that other [of j] show ?thesis by simp
    next
      case 3
      with that ex show ?thesis by (simp add: exclusive_def)
    qed
  qed
  ultimately show ?thesis using t k by (intro exI [of _ ?h]) (simp add: exclusive_def kept_def)
qed

lemma thread_owns_settle: "thread_owns h t \<Longrightarrow> thread_owns h (settle d t)"
  by (cases "(d, t)" rule: settle.cases) (simp_all add: iteration_def owns_iteration)

abbreviation nothing :: holding where "nothing \<equiv> \<lparr>fresh = {}, taken = {}\<rparr>"

lemma nothing_simps [simp]: "held nothing = {}" "holding_ok m nothing"
  by (simp_all add: held_def holding_ok_def)

interpretation audio: thread_monitor thread_owns exclusive nothing E d for E d
proof
  show "exclusive (replicate n nothing) (init_world e)" for n e
    by (auto simp: exclusive_def init_world_def mem_ok_NewStore)
  show "thread_owns nothing (iteration d g closed)" for g closed
    by (simp add: iteration_def owns_iteration)
  show "thread_owns nothing (request d r)" for r
    by (simp add: request_def owns_Handler)
  show "exclusive (hs @ [nothing]) w" if "exclusive hs w" for hs w
    using that by (auto simp: exclusive_def nth_append)
  show "exclusive hs (w\<lparr>ext := e\<rparr>)" if "exclusive hs w" for hs w e
    using that by (simp add: exclusive_def)
qed (rule thread_owns_settle exclusive_perform; assumption)+

section \<open>Entries of the store\<close>

text \<open>An operation on an entry of the store, by its job.\<close>

fun on_entry :: "string \<Rightarrow> op \<Rightarrow> bool" where
  "on_entry j (OPut k f s) \<longleftrightarrow> k = j"
| "on_entry j (OTake k) \<longleftrightarrow> k = j"
| "on_entry j (ODrop k) \<longleftrightarrow> k = j"
| "on_entry j o' \<longleftrightarrow> False"

definition same_entry :: "string \<Rightarrow> nat \<Rightarrow> audio_mem \<Rightarrow> audio_mem \<Rightarrow> bool" where
  "same_entry j p m m' \<longleftrightarrow> clip_of m' j = Some p \<and> clips m' p = clips m p
     \<and> read_slice (Data (clips m p)) m' = read_slice (Data (clips m p)) m"

lemma held_not_stored:
  "holding_ok m h \<Longrightarrow> a \<in> held h \<Longrightarrow> (k, q) \<in> set (clip_map m) \<Longrightarrow> Data (clips m q) \<noteq> Some a"
  by (auto simp: holding_ok_def held_def)

text \<open>Every other operation leaves the entry, its clip and its bytes as they are.\<close>

lemma entry_kept:
  assumes "permits h o'" and "step_op E w o' = (r, w')" and ok: "mem_ok (mem w)" "holding_ok (mem w) h"
    and "\<not> on_entry j o'" and p: "clip_of (mem w) j = Some p"
  shows "same_entry j p (mem w) (mem w')"
proof -
  let ?m = "mem w"
  have jp: "(j, p) \<in> set (clip_map ?m)" using p by (simp add: clip_of_def map_of_SomeD)
  have pn: "p < next_clip ?m" using ok(1) jp by (auto simp: mem_ok_def)
  show ?thesis
  proof (cases "external o'")
    case True
    with assms(2) p show ?thesis by (auto simp: step_op_external same_entry_def)
  next
    case False
    then show ?thesis
    proof (cases o')
      case (OAlloc bs)
      have "Data (clips ?m p) \<noteq> Some (next_buf ?m)" using ok(1) by (auto simp: mem_ok_def)
      with OAlloc assms(2) p show ?thesis
        by (auto simp: world_simps same_entry_def alloc_buf_def clip_of_def read_slice_def split: option.split)
    next
      case (OPut k f s)
      with assms(2,5) p pn show ?thesis
        by (auto simp: world_simps same_entry_def alloc_clip_def clip_of_def Put_def read_slice_def split: option.split)
    next
      case (OTake k)
      with assms(2,5) p show ?thesis
        by (auto simp: world_simps same_entry_def Take_def clip_of_def read_slice_def split: option.split)
    next
      case (ODrop k)
      then have jk: "j \<noteq> k" using assms(5) by auto
      note d = clips_Drop [OF ok(1) p jk] Drop_frame [OF ok(1) p jk]
      with ODrop assms(2) p jk d show ?thesis
        by (auto simp: world_simps same_entry_def clip_of_ops)
    next
      case (OZeroSlice s)
      have "s \<noteq> Data (clips ?m p) \<or> s = None"
        using assms(1) OZeroSlice held_not_stored [OF ok(2) _ jp]
        by (cases s) (simp_all add: slice_in_def, metis)
      with OZeroSlice assms(2) p show ?thesis
        by (auto simp: world_simps same_entry_def zero_slice_def clip_of_def read_slice_def split: option.split)
    qed (use assms(2) p in \<open>auto simp: world_simps same_entry_def Let_def split: prod.splits if_splits\<close>)
  qed
qed

end
