(* ===== verification/Memory_Properties.thy ===== *)
theory Memory_Properties
  imports Ownership Scenarios
begin

text \<open>
  The audio memory of the running service: the properties of the store and of the buffers
  in every reachable state, for any number of workers and requests and any environment.
\<close>

lemma reachable_exclusive:
  assumes "reachable E d c"
  obtains hs where "list_all2 thread_owns hs (procs c)" and "exclusive hs (shared c)"
  using audio.reachable_holds [OF assms] by (auto simp: audio.holds_def)

text \<open>C22: The audio store is well-formed in every reachable state: one entry per job, every entry
  an allocated clip of its own, every clip a buffer of its own.\<close>

theorem audio_store_sound:
  assumes "reachable E d c"
  shows "mem_ok (mem (shared c))"
  using assms by (rule reachable_exclusive) (simp add: exclusive_def)

text \<open>An upload that has stored its audio, and the moment before the worker reads it.\<close>

definition stashed :: "move list" where
  "stashed = [Arrive upload_request] @ go 3 2"

definition reading :: "move list" where
  "reading = [Arrive upload_request] @ go 6 2 @ go 7 0"

lemma stashed_result:
  "\<exists>c c'. exec_moves ref_env ex_dep stashed (init_sys ex_dep ref_state) = Some c
    \<and> clip_of (mem (shared c)) ex_jid = Some 0
    \<and> map next_op (procs c) = [Some OCtxErr, Some (OTick claimInterval), Some ONow]
    \<and> exec_moves ref_env ex_dep [Run_thread 2] c = Some c'"
  unfolding init_ex stashed_def unfolding init_world_def ref_state_def
  by (simp add: scenario_rules clip_of_def cong: Op_lazy bind_lazy del: exec_moves.simps(2))

lemma reading_result:
  "\<exists>c. exec_moves ref_env ex_dep reading (init_sys ex_dep ref_state) = Some c \<and> 0 < length (procs c)
    \<and> next_op (procs c ! 0) = Some (OReadSlice (Some 0))"
  unfolding init_ex reading_def unfolding init_world_def ref_state_def
  by (simp add: scenario_rules cong: Op_lazy bind_lazy del: exec_moves.simps(2))

theorem audio_store_sound_witness:
  "\<exists>c. reachable ref_env ex_dep c \<and> clip_of (mem (shared c)) ex_jid = Some 0 \<and> mem_ok (mem (shared c))"
proof -
  from stashed_result obtain c where
    "exec_moves ref_env ex_dep stashed (init_sys ex_dep ref_state) = Some c" "clip_of (mem (shared c)) ex_jid = Some 0"
    by blast
  with audio_store_sound [OF ex_reachable] ex_reachable show ?thesis by blast
qed

text \<open>The buffer an operation reads, writes or hands over.\<close>

fun buffer_of :: "op \<Rightarrow> nat option" where
  "buffer_of (OPut j f s) = s"
| "buffer_of (OReadSlice s) = s"
| "buffer_of (OZeroSlice s) = s"
| "buffer_of o' = None"

lemma permits_held: "permits h o' \<Longrightarrow> buffer_of o' = Some a \<Longrightarrow> a \<in> held h"
  by (cases o') (auto simp: slice_in_def held_def)



text \<open>C13: The audio of a queued upload is not touched: a step of the service, by any goroutine,
  leaves the entry of a job, its clip and its bytes as they were, unless it is a \<open>Put\<close>,
  \<open>Take\<close> or \<open>Drop\<close> of this very job.\<close>

theorem queued_audio_untouched:
  assumes "reachable E d c" and "step E d c c'" and "clip_of (mem (shared c)) jid = Some p"
  shows "same_entry jid p (mem (shared c)) (mem (shared c'))
    \<or> (\<exists>i < length (procs c). \<exists>o1. next_op (procs c ! i) = Some o1 \<and> on_entry jid o1)"
  using assms(2)
proof cases
  case (perform i o' r w')
  from reachable_exclusive [OF assms(1)] obtain hs where
    ok: "list_all2 thread_owns hs (procs c)" and ex: "exclusive hs (shared c)" by blast
  have l: "i < length hs" using ok perform(2) by (simp add: list_all2_lengthD)
  have p: "permits (hs ! i) o'"
    using thread_owns_advance [OF list_all2_nthD [OF ok l] perform(3)] by simp
  have m: "mem_ok (mem (shared c))" "holding_ok (mem (shared c)) (hs ! i)"
    using ex l by (simp_all add: exclusive_def)
  show ?thesis
    using entry_kept [OF p perform(5) m _ assms(3)] perform(1-3) by (cases "on_entry jid o'") auto
qed (use assms(3) in \<open>simp_all add: same_entry_def\<close>)

theorem queued_audio_untouched_witness:
  "\<exists>c c'. reachable ref_env ex_dep c \<and> clip_of (mem (shared c)) ex_jid = Some 0
    \<and> (step ref_env ex_dep)\<^sup>*\<^sup>* c c' \<and> same_entry ex_jid 0 (mem (shared c)) (mem (shared c'))"
proof -
  from stashed_result obtain c c' where
    c: "exec_moves ref_env ex_dep stashed (init_sys ex_dep ref_state) = Some c"
    "clip_of (mem (shared c)) ex_jid = Some 0"
    and n: "map next_op (procs c) = [Some OCtxErr, Some (OTick claimInterval), Some ONow]"
    and s: "exec_moves ref_env ex_dep [Run_thread 2] c = Some c'" by (elim exE conjE) (rule that)
  from s have st: "step ref_env ex_dep c c'"
    by (auto split: option.splits dest!: exec_move_step simp del: exec_move.simps)
  have "\<not> (\<exists>i < length (procs c). \<exists>o1. next_op (procs c ! i) = Some o1 \<and> on_entry ex_jid o1)"
  proof
    assume "\<exists>i < length (procs c). \<exists>o1. next_op (procs c ! i) = Some o1 \<and> on_entry ex_jid o1"
    then obtain i o1 where "i < length (procs c)" "next_op (procs c ! i) = Some o1" "on_entry ex_jid o1" by blast
    then have "Some o1 \<in> set (map next_op (procs c))" "on_entry ex_jid o1"
      by (metis length_map nth_map nth_mem)+
    then show False unfolding n by auto
  qed
  with queued_audio_untouched [OF ex_reachable [OF c(1)] st c(2)] ex_reachable [OF c(1)] c(2) st
  show ?thesis by (intro exI [of _ c] exI [of _ c']) auto
qed

end
