(* ===== verification/Lifecycle.thy ===== *)
theory Lifecycle
  imports System
begin

text \<open>
  \<open>cmd/server/main.go\<close>, the rest of \<open>run\<close>: the worker pool and the HTTP server as
  goroutines, the context that a signal or a failing listener cancels, and the shutdown
  sequence of the main goroutine. The signal package, the listener and
  \<open>httpServer.Shutdown\<close> are the library's: a signal or an error may come at any time, and
  \<open>Shutdown\<close> closes the listener, then waits for the active requests or for its deadline.
\<close>

section \<open>The context\<close>

text \<open>
  The environment of a goroutine under the root context, with the flag that the context is
  done. The selects on \<open>ctx.Done()\<close> (sleep, ticker, gate) cannot take that case before
  the context is done; afterwards either case may be taken.
\<close>

fun ctx_env :: "('e \<Rightarrow> op \<Rightarrow> reply \<times> 'e) \<Rightarrow> bool \<times> 'e \<Rightarrow> op \<Rightarrow> reply \<times> (bool \<times> 'e)" where
  "ctx_env E (c, e) OCtxErr = (RErr (if c then Some CtxCanceled else None), (c, e))"
| "ctx_env E (c, e) (OSleep n) = (let (r, e') = E e (OSleep n) in (RBool (\<not> c \<or> as_bool r), (c, e')))"
| "ctx_env E (c, e) (OTick n) = (let (r, e') = E e (OTick n) in (RBool (\<not> c \<or> as_bool r), (c, e')))"
| "ctx_env E (c, e) OGate = (let (r, e') = E e OGate in (RBool (\<not> c \<or> as_bool r), (c, e')))"
| "ctx_env E (c, e) o' = (let (r, e') = E e o' in (r, (c, e')))"

lemma ctx_env_flag: "fst (snd (ctx_env E s o')) = fst s"
  by (cases s; cases o') (simp_all split: prod.split)

section \<open>The main goroutine\<close>

text \<open>
  Where \<open>run\<close> stands: at \<open><-ctx.Done()\<close>, in \<open>Shutdown\<close>, at \<open>wg.Wait()\<close>, or returned
  (the process ends).
\<close>

datatype main_state = Serving | Stopping | Waiting | Exited

record 'e service =
  running :: "(bool \<times> 'e) sys"
  listening :: bool
  main :: main_state

definition start_service :: "deployment \<Rightarrow> 'e \<Rightarrow> 'e service" where
  "start_service d e = \<lparr>running = init_sys d (False, e), listening = True, main = Serving\<rparr>"

definition cancelled :: "'e service \<Rightarrow> bool" where
  "cancelled s = fst (ext (shared (running s)))"

text \<open>\<open>stop()\<close>, also what \<open>signal.NotifyContext\<close> does on SIGINT and SIGTERM.\<close>

definition stop :: "'e service \<Rightarrow> 'e service" where
  "stop s = s\<lparr>running := (running s)\<lparr>shared := (shared (running s))
     \<lparr>ext := (True, snd (ext (shared (running s))))\<rparr>\<rparr>\<rparr>"

datatype life_move = Work move | Signal | Listen_error | Shutdown | Drained | Deadline | Wait_done

fun arrival :: "move \<Rightarrow> bool" where
  "arrival (Arrive r) = True"
| "arrival m = False"

fun active :: "thread \<Rightarrow> bool" where
  "active (Request p) = True"
| "active t = False"

text \<open>
  One event of the process. \<open>wg.Wait\<close> returns when every goroutine of the pool has ended
  and \<open>ListenAndServe\<close> has returned.
\<close>

fun exec_life :: "('e \<Rightarrow> op \<Rightarrow> reply \<times> 'e) \<Rightarrow> deployment \<Rightarrow> life_move \<Rightarrow> 'e service \<Rightarrow> 'e service option" where
  "exec_life E d (Work m) s =
     (if main s \<noteq> Exited \<and> (arrival m \<longrightarrow> listening s)
      then map_option (\<lambda>c. s\<lparr>running := c\<rparr>) (exec_move (ctx_env E) d m (running s)) else None)"
| "exec_life E d Signal s = (if main s \<noteq> Exited then Some (stop s) else None)"
| "exec_life E d Listen_error s =
     (if main s = Serving \<and> listening s then Some ((stop s)\<lparr>listening := False\<rparr>) else None)"
| "exec_life E d Shutdown s =
     (if main s = Serving \<and> cancelled s then Some (s\<lparr>main := Stopping, listening := False\<rparr>) else None)"
| "exec_life E d Drained s =
     (if main s = Stopping \<and> \<not> list_ex active (procs (running s)) then Some (s\<lparr>main := Waiting\<rparr>) else None)"
| "exec_life E d Deadline s = (if main s = Stopping then Some (s\<lparr>main := Waiting\<rparr>) else None)"
| "exec_life E d Wait_done s =
     (if main s = Waiting \<and> \<not> list_ex is_loop (procs (running s)) \<and> \<not> listening s
      then Some (s\<lparr>main := Exited\<rparr>) else None)"

inductive alive :: "('e \<Rightarrow> op \<Rightarrow> reply \<times> 'e) \<Rightarrow> deployment \<Rightarrow> 'e service \<Rightarrow> bool" for E d where
  start: "alive E d (start_service d e)"
| event: "alive E d s \<Longrightarrow> exec_life E d m s = Some s' \<Longrightarrow> alive E d s'"

text \<open>\<open>main\<close>: the exit status of the process, from the error \<open>run\<close> returns.\<close>

definition exit_status :: "error option \<Rightarrow> int" where
  "exit_status err = (if err \<noteq> None then 1 else 0)"

section \<open>Lemmas\<close>

lemma exec_life_cases:
  assumes "exec_life E d m s = Some s'"
  obtains (work) mv c where "m = Work mv" and "exec_move (ctx_env E) d mv (running s) = Some c"
      and "arrival mv \<longrightarrow> listening s" and "s' = s\<lparr>running := c\<rparr>" and "main s \<noteq> Exited"
    | (stopped) "s' = stop s \<or> s' = (stop s)\<lparr>listening := False\<rparr>" and "main s \<noteq> Exited"
    | (main) "running s' = running s" and "listening s' \<longrightarrow> listening s"
        and "main s = Serving \<and> main s' = Stopping \<and> cancelled s \<and> \<not> listening s'
          \<or> main s = Stopping \<and> main s' = Waiting \<and> listening s' = listening s
          \<or> main s = Waiting \<and> main s' = Exited \<and> \<not> list_ex is_loop (procs (running s)) \<and> \<not> listening s'"
  using assms by (cases m) (auto split: if_splits option.splits)

text \<open>The protocol of the gate and the counter holds for the whole process.\<close>

lemma counters_alive: "alive E d s \<Longrightarrow> \<exists>ms. counters.holds ms (running s)"
proof (induction rule: alive.induct)
  case (start e)
  show ?case unfolding start_service_def service.select_convs by (rule exI, rule counters.holds_init)
next
  case (event s m s')
  from event.IH obtain ms where h: "counters.holds ms (running s)" by blast
  from event.hyps(2) show ?case
  proof (cases rule: exec_life_cases)
    case (work mv c)
    with h show ?thesis using counters.holds_step [OF h exec_move_step] by simp
  next
    case stopped
    then have "running s' = (running s)\<lparr>shared := (shared (running s))
     \<lparr>ext := (True, snd (ext (shared (running s))))\<rparr>\<rparr>" by (auto simp: stop_def)
    then show ?thesis using counters.holds_outside [OF h] by metis
  qed (use h in auto)
qed

section \<open>No goroutine ends early\<close>

text \<open>
  \<open>stays p\<close>: as long as the context is not done, \<open>p\<close> does not return from its loop.
\<close>

fun undone :: "op \<Rightarrow> reply \<Rightarrow> bool" where
  "undone OCtxErr r \<longleftrightarrow> r = RErr None"
| "undone (OSleep n) r \<longleftrightarrow> r = RBool True"
| "undone (OTick n) r \<longleftrightarrow> r = RBool True"
| "undone o' r \<longleftrightarrow> True"

primrec stays :: "('a \<Rightarrow> bool) \<Rightarrow> 'a prog \<Rightarrow> bool" where
  "stays Q (Ret x) \<longleftrightarrow> Q x"
| "stays Q (Op o' k) \<longleftrightarrow> (\<forall>r. undone o' r \<longrightarrow> stays Q (k r))"

lemma stays_bind: "(\<And>x. stays Q (f x)) \<Longrightarrow> stays Q (bind p f)"
  by (induction p) simp_all

lemma undone_ctx: "\<not> fst s \<Longrightarrow> undone o' (fst (ctx_env E s o'))"
  by (cases s; cases o') (simp_all split: prod.split)

lemma undone_step: "\<not> fst (ext w) \<Longrightarrow> undone o' (fst (step_op (ctx_env E) w o'))"
proof (cases "external o'")
  case True
  then show "\<not> fst (ext w) \<Longrightarrow> ?thesis" by (simp add: step_op_external undone_ctx)
next
  case False
  then show ?thesis by (cases o') simp_all
qed

lemma flag_step: "fst (ext (snd (step_op (ctx_env E) w o'))) = fst (ext w)"
proof (cases "external o'")
  case True
  then show ?thesis by (simp add: step_op_external ctx_env_flag)
next
  case False
  then show ?thesis
    using ctx_env_flag [of E "ext w" OGate] by (cases o') (auto simp: world_simps Let_def split: prod.split)
qed

lemma flag_move: "step (ctx_env E) d c c' \<Longrightarrow> fst (ext (shared c')) = fst (ext (shared c))"
proof (erule stepE)
  fix i o' r w'
  assume "step_op (ctx_env E) (shared c) o' = (r, w')"
    and "c' = \<lparr>procs = (procs c)[i := advance r (procs c ! i)], shared = w'\<rparr>"
  then show ?thesis using flag_step [of E "shared c" o'] by simp
qed simp_all

lemma stays_iteration: "stays (\<lambda>t. t \<noteq> Return) (goroutine_iter up p g closed)"
  by (cases g)
    (auto simp: goroutine_iter_def consume_iter_def claim_iter_def intro!: stays_bind split: sum.split)

definition loop_stays :: "thread \<Rightarrow> bool" where
  "loop_stays t \<longleftrightarrow> (case t of Loop g p \<Rightarrow> stays (\<lambda>t. t \<noteq> Return) p | _ \<Rightarrow> True)"

lemma loop_stays_advance:
  "loop_stays t \<Longrightarrow> next_op t = Some o' \<Longrightarrow> undone o' r \<Longrightarrow> loop_stays (advance r t)"
  by (cases t rule: next_op.cases) (auto simp: loop_stays_def)

lemma loop_stays_settle: "loop_stays t \<Longrightarrow> loop_stays (settle d t) \<and> is_loop (settle d t) = is_loop t"
  by (cases "(d, t)" rule: settle.cases)
    (auto simp: loop_stays_def is_loop_def iteration_def stays_iteration)

text \<open>The goroutines of the pool that are running.\<close>

definition workers :: "'e service \<Rightarrow> nat" where
  "workers s = length (filter is_loop (procs (running s)))"

lemma same_workers:
  "i < length ts \<Longrightarrow> is_loop t = is_loop (ts ! i) \<Longrightarrow>
    length (filter is_loop (ts[i := t])) = length (filter is_loop ts)"
  using length_filter_update [of i ts is_loop t] by simp

definition at_work :: "deployment \<Rightarrow> 'e service \<Rightarrow> bool" where
  "at_work d s \<longleftrightarrow> main s = Serving \<and> listening s \<and> workers s = Suc (nat (concurrency (dep_pool d)))
     \<and> (\<forall>t \<in> set (procs (running s)). loop_stays t)"

lemma at_work_move:
  assumes "at_work d s" and "\<not> cancelled s" and "exec_move (ctx_env E) d m (running s) = Some c"
  shows "at_work d (s\<lparr>running := c\<rparr>) \<and> \<not> cancelled (s\<lparr>running := c\<rparr>)"
proof -
  let ?c = "running s"
  have st: "loop_stays (procs ?c ! i)" if "i < length (procs ?c)" for i
    using assms(1) that by (simp add: at_work_def)
  from exec_move_step [OF assms(3)] show ?thesis
  proof cases
    case (perform i o' r w')
    have r: "r = fst (step_op (ctx_env E) (shared ?c) o')" and w': "w' = snd (step_op (ctx_env E) (shared ?c) o')"
      using perform(5) by simp_all
    have "undone o' r" unfolding r using assms(2) by (intro undone_step) (simp add: cancelled_def)
    then have "loop_stays (advance r (procs ?c ! i))"
      by (rule loop_stays_advance [OF st [OF perform(2)] perform(3)])
    then have "\<forall>t \<in> set ((procs ?c)[i := advance r (procs ?c ! i)]). loop_stays t"
      using assms(1) by (auto simp: at_work_def dest!: set_update_subset_insert [THEN subsetD])
    then show ?thesis
      using assms(1,2) perform(1,2) flag_step [of E "shared ?c" o']
      by (simp add: at_work_def cancelled_def workers_def same_workers loops_advance w')
  next
    case (turn_over i)
    note set = loop_stays_settle [OF st [OF turn_over(2)], of d]
    then have "\<forall>t \<in> set ((procs ?c)[i := settle d (procs ?c ! i)]). loop_stays t"
      using assms(1) by (auto simp: at_work_def dest!: set_update_subset_insert [THEN subsetD])
    then show ?thesis
      using assms(1,2) turn_over(1,2) set by (simp add: at_work_def cancelled_def workers_def same_workers)
  next
    case (arrive r)
    with assms(1,2) show ?thesis
      by (auto simp: at_work_def cancelled_def workers_def request_def loop_stays_def is_loop_def)
  qed
qed

lemma at_work_start: "at_work d (start_service d e)"
proof -
  have "length (filter is_loop (map (\<lambda>g. iteration d g False) gs)) = length gs" for gs
    by (induction gs) (simp_all add: iteration_def is_loop_def)
  then show ?thesis
    by (auto simp: at_work_def start_service_def init_sys_def workers_def length_Run loop_stays_def
        iteration_def stays_iteration)
qed

lemma alive_at_work: "alive E d s \<Longrightarrow> \<not> cancelled s \<Longrightarrow> at_work d s"
proof (induction rule: alive.induct)
  case (start e)
  show ?case by (rule at_work_start)
next
  case (event s m s')
  from event.hyps(2) show ?case
  proof (cases rule: exec_life_cases)
    case (work mv c)
    show ?thesis
    proof (cases "cancelled s")
      case False
      with event.IH at_work_move [OF _ False work(2)] work(4) show ?thesis by simp
    next
      case True
      have "cancelled s'"
        using flag_move [OF exec_move_step [OF work(2)]] True work(4) by (simp add: cancelled_def)
      with event.prems show ?thesis by simp
    qed
  next
    case stopped
    with event.prems show ?thesis by (auto simp: stop_def cancelled_def)
  next
    case main
    with event.prems event.IH show ?thesis by (auto simp: cancelled_def at_work_def)
  qed
qed

end
