(* ===== verification/Lifecycle_Properties.thy ===== *)
theory Lifecycle_Properties
  imports Lifecycle Scenarios Settings_Properties
begin

text \<open>
  The properties of the process as a whole: the workers run until the context is done, the
  shutdown sequence refuses new requests, cannot get stuck, and ends with nothing in
  flight.
\<close>

section \<open>The states of a shutdown\<close>

text \<open>An environment in which every wait is cut short once the context is done.\<close>

fun quiet_env :: "unit \<Rightarrow> op \<Rightarrow> reply \<times> unit" where
  "quiet_env s o' = (RBool False, s)"

fun exec_lives :: "life_move list \<Rightarrow> unit service \<Rightarrow> unit service option" where
  "exec_lives [] s = Some s"
| "exec_lives (m # ms) s = (case exec_life quiet_env ex_dep m s of None \<Rightarrow> None | Some s' \<Rightarrow> exec_lives ms s')"

lemma exec_lives_alive:
  "alive quiet_env ex_dep s \<Longrightarrow> exec_lives ms s = Some s' \<Longrightarrow> alive quiet_env ex_dep s'"
  by (induction ms arbitrary: s) (auto split: option.splits intro: alive.event)

definition down :: "life_move list" where
  "down = [Signal, Shutdown, Drained, Work (Run_thread 0), Work (Turn 0), Work (Run_thread 1), Work (Turn 1)]"

lemma down_result:
  "\<exists>s. exec_lives down (start_service ex_dep ()) = Some s \<and> main s = Waiting
    \<and> exec_life quiet_env ex_dep Wait_done s = Some (s\<lparr>main := Exited\<rparr>)"
  by (simp add: down_def start_service_def init_ex init_world_def stop_def cancelled_def iteration_def
      goroutine_iter_def consume_iter_def claim_iter_def blocked_def world_simps is_loop_def
      cong: Op_lazy bind_lazy)

lemma waiting_state: "\<exists>s. alive quiet_env ex_dep s \<and> main s = Waiting"
  using down_result exec_lives_alive [OF alive.start] by blast

lemma exited_state: "\<exists>s. alive quiet_env ex_dep s \<and> main s = Exited"
proof -
  from down_result obtain s where s: "exec_lives down (start_service ex_dep ()) = Some s"
    "exec_life quiet_env ex_dep Wait_done s = Some (s\<lparr>main := Exited\<rparr>)" by blast
  have "alive quiet_env ex_dep (s\<lparr>main := Exited\<rparr>)"
    by (rule alive.event [OF exec_lives_alive [OF alive.start s(1)] s(2)])
  then show ?thesis by (intro exI [of _ "s\<lparr>main := Exited\<rparr>"]) simp
qed

section \<open>The start\<close>

lemma start_workers: "workers (start_service d e) = Suc (nat (concurrency (dep_pool d)))"
    "in_flight (shared (running (start_service d e))) = 0"
  using at_work_start [of d e] by (simp_all add: at_work_def start_service_def init_sys_def init_world_def)

text \<open>C19: What runs is what was configured, and it runs on a Redis that answered. When the start
  succeeds, the configuration is the valid one that \<open>Load\<close> read; pool and server share one
  store with its TTL and queue size; the pool has its limits, window, upstream and key; the
  process begins with \<open>MAX_CONCURRENCY\<close> consumers and the claimer, at least two goroutines,
  and no job; Redis was pinged and the consumer group created or found, and nothing else was
  asked. When the start fails, at most these two commands were sent.\<close>

theorem startup_as_configured:
  fixes X frac ll pu getenv w
  defines "z \<equiv> run X (startup frac ll pu getenv) w"
  shows "(\<exists>rest. [OPing, OXGroupCreate streamKey groupName ''0''] = ops z @ rest)
    \<and> (\<forall>p s. result z = Inr (p, s) \<longrightarrow>
        (\<exists>c. Load frac ll getenv = Inr c \<and> config_ok c \<and> srv_cfg s = c
          \<and> pool_store p = srv_store s \<and> srv_store s = \<lparr>jobTTL = cfg_JobTTL c, queueSize = cfg_QueueSize c\<rparr>
          \<and> pool_whisper p = \<lparr>baseURL = cfg_WhisperUpstreamURL c, apiKey = cfg_WhisperAPIKey c,
               http_timeout = cfg_UpstreamTimeout c\<rparr>
          \<and> maxAudioBytes p = cfg_MaxAudioBytes c \<and> downloadTimeout p = cfg_DownloadTimeout c
          \<and> defaultLanguage p = cfg_DefaultLanguage c \<and> pool_window p = cfg_WhisperWindow c
          \<and> (\<forall>d e. dep_pool d = p \<longrightarrow> 2 \<le> workers (start_service d e)
               \<and> int (workers (start_service d e)) = cfg_MaxConcurrency c + 1
               \<and> in_flight (shared (running (start_service d e))) = 0))
        \<and> (OPing, fst (X w OPing)) \<in> set (events z) \<and> as_err (fst (X w OPing)) = None
        \<and> length (ops z) = 2)"
proof (cases "Load frac ll getenv")
  case (Inl e)
  then show ?thesis by (simp add: z_def startup_def run_simps)
next
  case (Inr c)
  have ok: "config_ok c" by (rule Load_config_ok [OF Inr])
  then have mc: "1 \<le> cfg_MaxConcurrency c" by (simp add: config_ok_def)
  show ?thesis
    using Inr ok mc
    by (auto simp: z_def startup_def run_simps New_store_def ensureGroup_def New_pool_def
        New_client_def New_server_def Let_def start_workers split: option.splits if_splits)
qed

theorem startup_as_configured_witness:
  "\<exists>p s. result (run (\<lambda>u o'. (RErr None, u))
      (startup (\<lambda>_ _ _. 0) (\<lambda>_. Inl RedisNil) (\<lambda>_. None) (env_with [] [])) ()) = Inr (p, s)
    \<and> pool_store p = srv_store s \<and> config_ok (srv_cfg s)"
proof -
  obtain c where c: "Load (\<lambda>_ _ _. 0) (\<lambda>_. Inl RedisNil) (env_with [] []) = Inr c"
    using Load_unset [of "env_with [] []" "\<lambda>_ _ _. 0" "\<lambda>_. Inl RedisNil"]
    by (simp add: env_with_def)
  then obtain p s where "result (run (\<lambda>u o'. (RErr None, u))
      (startup (\<lambda>_ _ _. 0) (\<lambda>_. Inl RedisNil) (\<lambda>_. None) (env_with [] [])) ()) = Inr (p, s)"
    by (simp add: startup_def New_store_def ensureGroup_def run_simps Let_def)
  with startup_as_configured [of "\<lambda>u o'. (RErr None, u)" "\<lambda>_ _ _. 0" "\<lambda>_. Inl RedisNil"
      "\<lambda>_. None" "env_with [] []" "()"]
  show ?thesis by blast
qed

section \<open>Before the stop\<close>

text \<open>C18: No worker dies: as long as no signal came and the listener did not fail, every goroutine
  that \<open>Run\<close> started is still in its loop, and the service accepts requests. No error of
  Redis, of a download or of the upstream, and no job, ends a worker.\<close>

theorem workers_stay_until_stop:
  assumes "alive E d s" and "\<not> cancelled s"
  shows "workers s = Suc (nat (concurrency (dep_pool d))) \<and> main s = Serving \<and> listening s"
  using alive_at_work [OF assms] by (simp add: at_work_def)

theorem workers_stay_until_stop_witness: "workers (start_service ex_dep ()) = 2"
proof -
  have "\<not> cancelled (start_service ex_dep ())"
    by (simp add: cancelled_def start_service_def init_sys_def init_world_def)
  from workers_stay_until_stop [OF alive.start [of quiet_env] this] show ?thesis by (simp add: ex_dep_sel)
qed

section \<open>The shutdown\<close>

lemma alive_stopping:
  "alive E d s \<Longrightarrow> (main s \<noteq> Serving \<longrightarrow> cancelled s \<and> \<not> listening s)
    \<and> (main s = Exited \<longrightarrow> \<not> list_ex is_loop (procs (running s)))"
proof (induction rule: alive.induct)
  case (start e)
  show ?case by (simp add: start_service_def)
next
  case (event s m s')
  from event.hyps(2) show ?case
  proof (cases rule: exec_life_cases)
    case (work mv c)
    then show ?thesis
      using event.IH flag_move [OF exec_move_step [OF work(2)]] by (auto simp: cancelled_def)
  next
    case stopped
    then show ?thesis using event.IH by (auto simp: stop_def cancelled_def)
  next
    case main
    then show ?thesis using event.IH by (auto simp: cancelled_def)
  qed
qed

text \<open>Once the shutdown has begun nothing new is accepted: no event of the process starts
  another request.\<close>

lemma shutdown_accepts_nothing:
  assumes "alive E d s" and "main s \<noteq> Serving" and "exec_life E d m s = Some s'"
  shows "length (procs (running s')) = length (procs (running s)) \<and> main s' \<noteq> Serving"
  using assms(3)
proof (cases rule: exec_life_cases)
  case (work mv c)
  moreover have "\<not> listening s" using alive_stopping [OF assms(1)] assms(2) by simp
  ultimately show ?thesis
    using assms(2) by (cases mv) (auto split: if_splits option.splits prod.splits)
qed (use assms(2) in \<open>auto simp: stop_def\<close>)

lemma shutdown_accepts_nothing_witness:
  "\<exists>s s'. alive quiet_env ex_dep s \<and> exec_life quiet_env ex_dep Wait_done s = Some s'
    \<and> length (procs (running s')) = length (procs (running s))"
proof -
  from down_result obtain s where s: "exec_lives down (start_service ex_dep ()) = Some s" "main s = Waiting"
    "exec_life quiet_env ex_dep Wait_done s = Some (s\<lparr>main := Exited\<rparr>)" by blast
  have a: "alive quiet_env ex_dep s" by (rule exec_lives_alive [OF alive.start s(1)])
  from s(2) have "main s \<noteq> Serving" by simp
  from shutdown_accepts_nothing [OF a this s(3)] a s(3) show ?thesis by blast
qed

text \<open>C16: The process ends clean: when \<open>run\<close> returns, every goroutine of the pool has ended, no
  job is in flight, nobody holds the gate and the listener is closed. Every message that was
  taken up was handled to its end.\<close>

theorem shutdown_drains:
  assumes "alive E d s" and "main s = Exited"
  shows "workers s = 0 \<and> in_flight (shared (running s)) = 0 \<and> \<not> gate (shared (running s)) \<and> \<not> listening s"
proof -
  from alive_stopping [OF assms(1)] assms(2) have no: "\<not> list_ex is_loop (procs (running s))"
    and l: "\<not> listening s" by simp_all
  from counters_alive [OF assms(1)] obtain ms where ok: "list_all2 thread_ok ms (procs (running s))"
    and ag: "agree ms (shared (running s))" by (auto simp: counters.holds_def)
  have "\<forall>m \<in> set ms. m = (False, 0)"
  proof
    fix m assume "m \<in> set ms"
    then obtain i where i: "i < length ms" "ms ! i = m" by (auto simp: in_set_conv_nth)
    with ok have "thread_ok m (procs (running s) ! i)" by (auto dest: list_all2_nthD)
    moreover have "\<not> is_loop (procs (running s) ! i)"
      using no i ok by (auto simp: list_ex_iff list_all2_lengthD)
    ultimately show "m = (False, 0)" by (cases "procs (running s) ! i") (simp_all add: is_loop_def)
  qed
  then have "filter fst ms = []" "sum_list (map snd ms) = 0"
    by (induction ms) auto
  with ag no l show ?thesis
    by (auto simp: agree_def workers_def list_ex_iff filter_empty_conv split: if_splits)
qed

theorem shutdown_drains_witness:
  "\<exists>s. alive quiet_env ex_dep s \<and> main s = Exited \<and> workers s = 0 \<and> in_flight (shared (running s)) = 0"
  using exited_state shutdown_drains by blast

text \<open>Events the process makes on its own: neither a signal, nor an error, nor a request.\<close>

fun own_move :: "life_move \<Rightarrow> bool" where
  "own_move (Work m) = (\<not> arrival m)"
| "own_move Signal = False"
| "own_move Listen_error = False"
| "own_move m = True"

lemma worker_moves:
  assumes "alive E d s" and "main s \<noteq> Exited" and "list_ex is_loop (procs (running s))"
  shows "\<exists>m. own_move m \<and> exec_life E d m s \<noteq> None"
proof -
  let ?c = "running s"
  have go: "\<exists>m. own_move m \<and> exec_life E d m s \<noteq> None"
    if "i < length (procs ?c)" "next_op (procs ?c ! i) = Some o'" "\<not> blocked (ctx_env E) (shared ?c) o'" for i o'
    using that assms(2) by (intro exI [of _ "Work (Run_thread i)"]) (auto split: prod.split)
  from assms(3) obtain i where i: "i < length (procs ?c)" by (auto simp: list_ex_iff in_set_conv_nth)
  show ?thesis
  proof (cases "next_op (procs ?c ! i)")
    case None
    with i assms(2) show ?thesis by (intro exI [of _ "Work (Turn i)"]) simp
  next
    case (Some o')
    show ?thesis
    proof (cases "blocked (ctx_env E) (shared ?c) o'")
      case False
      with go i Some show ?thesis by blast
    next
      case True
      then have "gate (shared ?c)" by (simp add: blocked_def)
      with counters_alive [OF assms(1)] holder_exists go show ?thesis by metis
    qed
  qed
qed

text \<open>C20: The process never gets stuck: until \<open>run\<close> has returned, some goroutine of the pool or
  the main goroutine can move, without a signal, an error or a request from outside. In
  particular no worker waits for the gate for ever, and the shutdown does not wait for
  workers that wait for each other.\<close>

theorem process_never_stuck:
  assumes "alive E d s" and "main s \<noteq> Exited"
  shows "\<exists>m. own_move m \<and> exec_life E d m s \<noteq> None"
proof (cases "list_ex is_loop (procs (running s))")
  case True
  with assms show ?thesis by (rule worker_moves)
next
  case False
  have c: "cancelled s"
  proof (rule ccontr)
    assume "\<not> cancelled s"
    with alive_at_work [OF assms(1)] have "workers s \<noteq> 0" by (simp add: at_work_def)
    with False show False by (auto simp: workers_def list_ex_iff filter_empty_conv)
  qed
  note st = alive_stopping [OF assms(1)]
  show ?thesis
  proof (cases "main s")
    case Serving
    with c show ?thesis by (intro exI [of _ Shutdown]) simp
  next
    case Stopping
    then show ?thesis by (intro exI [of _ Deadline]) simp
  next
    case Waiting
    with False st show ?thesis by (intro exI [of _ Wait_done]) simp
  qed (use assms(2) in simp)
qed

theorem process_never_stuck_witness:
  "\<exists>s m. alive quiet_env ex_dep s \<and> main s = Waiting \<and> own_move m \<and> exec_life quiet_env ex_dep m s \<noteq> None"
proof -
  from waiting_state obtain s where s: "alive quiet_env ex_dep s" "main s = Waiting" by blast
  then have "main s \<noteq> Exited" by simp
  from process_never_stuck [OF s(1) this] s show ?thesis by blast
qed

end
