(* ===== verification/Stop_Properties.thy ===== *)
theory Stop_Properties
  imports Lifecycle_Properties
begin

text \<open>
  Termination after the stop: every goroutine but the claimer makes finitely many moves of
  its own once the context is done, by well-foundedness of those moves.
\<close>

section \<open>Every goroutine comes to its end\<close>

text \<open>
  What a goroutine can become by a move of its own while the context is done: the reply of
  its next operation, whatever the rest of the process did before, or the end of a turn.
\<close>

inductive stopped_move :: "('e \<Rightarrow> op \<Rightarrow> reply \<times> 'e) \<Rightarrow> deployment \<Rightarrow> thread \<Rightarrow> thread \<Rightarrow> bool" for E d where
  performs: "next_op t = Some o' \<Longrightarrow> fst (ext w) \<Longrightarrow> stopped_move E d (advance (fst (step_op (ctx_env E) w o')) t) t"
| turns: "next_op t = None \<Longrightarrow> t \<noteq> Done \<Longrightarrow> stopped_move E d (settle d t) t"

inductive_cases stopped_moveE: "stopped_move E d t' t"

abbreviation ends :: "('e \<Rightarrow> op \<Rightarrow> reply \<times> 'e) \<Rightarrow> deployment \<Rightarrow> thread \<Rightarrow> bool" where
  "ends E d \<equiv> Wellfounded.accp (stopped_move E d)"

lemma ends_Done: "ends E d Done"
  by (rule accpI) (auto elim!: stopped_moveE)

lemma stopped_move_Op:
  "stopped_move E d t (Request (Op o' k)) \<Longrightarrow> \<exists>r. t = Request (k r)"
  "stopped_move E d t (Loop g (Op o' l)) \<Longrightarrow> \<exists>r. t = Loop g (l r)"
  by (erule stopped_moveE; auto)+

lemma stopped_move_Ret:
  "stopped_move E d t (Request (Ret x)) \<Longrightarrow> t = Done"
  "stopped_move E d t (Loop g (Ret y)) \<Longrightarrow> t = settle d (Loop g (Ret y))"
  by (erule stopped_moveE; simp)+

lemma ends_Request: "ends E d (Request p)"
proof (induction p)
  case (Ret x)
  show ?case by (rule accpI) (auto dest: stopped_move_Ret simp: ends_Done)
next
  case (Op o' k)
  show ?case by (rule accpI) (use Op in \<open>blast dest: stopped_move_Op(1)\<close>)
qed

text \<open>A consumer that starts a turn sees the context and returns.\<close>

lemma ends_turn: "ends E d (iteration d (Consumer c) closed)"
proof (rule accpI)
  fix t
  assume "stopped_move E d t (iteration d (Consumer c) closed)"
  then have "t = Loop (Consumer c) (Ret Return)"
  proof cases
    case (performs o' w)
    have "fst (step_op (ctx_env E) w OCtxErr) = RErr (Some CtxCanceled)"
      using performs(3) by (cases "ext w") (simp add: step_op_external)
    with performs(1,2) show ?thesis by (auto simp: iteration_def goroutine_iter_def consume_iter_def)
  qed (simp add: iteration_def goroutine_iter_def consume_iter_def)
  moreover have "ends E d (Loop (Consumer c) (Ret Return))"
    by (rule accpI) (auto dest: stopped_move_Ret simp: ends_Done)
  ultimately show "ends E d t" by simp
qed

lemma ends_Consumer: "ends E d (Loop (Consumer c) p)"
proof (induction p)
  case (Ret x)
  show ?case by (rule accpI) (cases x; auto dest: stopped_move_Ret simp: ends_Done ends_turn)
next
  case (Op o' k)
  show ?case by (rule accpI) (use Op in \<open>blast dest: stopped_move_Op(2)\<close>)
qed

definition is_claimer :: "thread \<Rightarrow> bool" where
  "is_claimer t \<longleftrightarrow> (\<exists>c p. t = Loop (Claimer c) p)"

lemma ends_others: "\<not> is_claimer t \<Longrightarrow> ends E d t"
proof (cases t)
  case (Loop g p)
  then show "\<not> is_claimer t \<Longrightarrow> ?thesis" by (cases g) (simp_all add: is_claimer_def ends_Consumer)
qed (simp_all add: ends_Done ends_Request)

text \<open>A sequence of threads that changes by such moves only, at the times \<open>moves\<close>.\<close>

lemma finitely_many_moves:
  assumes "ends E d (t n)"
    and "\<And>m. m \<in> moves \<Longrightarrow> stopped_move E d (t (Suc m)) (t m)"
    and "\<And>m. m \<notin> moves \<Longrightarrow> t (Suc m) = t m"
  shows "finite {m \<in> moves. n \<le> m}"
proof -
  have "finite {m \<in> moves. k \<le> m}" if "ends E d x" and "t k = x" for x k
    using that
  proof (induction arbitrary: k rule: accp.induct)
    case (accI x)
    show ?case
    proof (cases "\<exists>m \<in> moves. k \<le> m")
      case True
      define l where "l = (LEAST m. m \<in> moves \<and> k \<le> m)"
      have l: "l \<in> moves" "k \<le> l" and least: "\<And>m. m \<in> moves \<Longrightarrow> k \<le> m \<Longrightarrow> l \<le> m"
        using True unfolding l_def by (metis (mono_tags, lifting) LeastI Least_le)+
      have "t m = t k" if "k \<le> m" "m \<le> l" for m
        using that
      proof (induction m rule: dec_induct)
        case (step m)
        then have "m \<notin> moves" using least [of m] by auto
        with step assms(3) [of m] show ?case by simp
      qed simp
      then have "t l = x" using l(2) accI.prems by simp
      with assms(2) [OF l(1)] have "stopped_move E d (t (Suc l)) x" by simp
      from accI.IH [OF this refl] have "finite {m \<in> moves. Suc l \<le> m}" .
      moreover have "{m \<in> moves. k \<le> m} \<subseteq> insert l {m \<in> moves. Suc l \<le> m}" using least by force
      ultimately show ?thesis by (meson finite_insert finite_subset)
    next
      case False
      then have "{m \<in> moves. k \<le> m} = {}" by auto
      then show ?thesis by (simp only: finite.emptyI)
    qed
  qed
  with assms(1) show ?thesis by blast
qed

text \<open>One event of the process, seen from one goroutine after the context is done.\<close>

lemma stopped_event:
  assumes "exec_life E d m s = Some s'" and "cancelled s" and "i < length (procs (running s))"
  defines "t \<equiv> procs (running s) ! i" and "t' \<equiv> procs (running s') ! i"
  shows "cancelled s' \<and> i < length (procs (running s'))
    \<and> (if m \<in> {Work (Run_thread i), Work (Turn i)} \<and> t \<noteq> Done then stopped_move E d t' t else t' = t)"
proof -
  show ?thesis
  proof (cases m)
    case (Work mv)
    from assms(1) obtain c where work: "m = Work mv" "exec_move (ctx_env E) d mv (running s) = Some c"
        "True" "s' = s\<lparr>running := c\<rparr>"
      by (auto simp: Work split: if_splits)
    have flag: "fst (ext (shared (running s)))" using assms(2) by (simp add: cancelled_def)
    have c: "cancelled s'"
      using flag_move [OF exec_move_step [OF work(2)]] flag work(4) by (simp add: cancelled_def)
    show ?thesis
    proof (cases mv)
      case (Run_thread j)
      from work(2) Run_thread obtain o' where j: "j < length (procs (running s))"
          "next_op (procs (running s) ! j) = Some o'"
        and c': "procs c = (procs (running s))[j := advance (fst (step_op (ctx_env E) (shared (running s)) o'))
          (procs (running s) ! j)]"
        by (auto split: if_splits option.splits prod.splits)
      show ?thesis
      proof (cases "j = i")
        case True
        with j have "t \<noteq> Done" by (auto simp: t_def)
        moreover have "stopped_move E d t' t"
          using performs [of t o' "shared (running s)" E d] j True flag
          by (simp add: t_def t'_def work(4) c' assms(3))
        ultimately show ?thesis using c assms(3) by (simp add: work(1,4) Run_thread True c')
      next
        case False
        with c assms(3) show ?thesis by (simp add: work(1,4) Run_thread c' t_def t'_def)
      qed
    next
      case (Turn j)
      with work(2) have j: "next_op (procs (running s) ! j) = None"
        and c': "procs c = (procs (running s))[j := settle d (procs (running s) ! j)]"
        by (auto split: if_splits)
      show ?thesis
      proof (cases "j = i")
        case True
        with c assms(3) j turns [of t E d] show ?thesis
          by (simp add: work(1,4) Turn True c' t_def t'_def)
      next
        case False
        with c assms(3) show ?thesis by (simp add: work(1,4) Turn c' t_def t'_def)
      qed
    next
      case (Arrive r)
      with c assms(3) work(2) show ?thesis by (auto simp: work(1,4) t_def t'_def nth_append)
    qed
  qed (use assms(1-3) in \<open>auto simp: stop_def cancelled_def t_def t'_def split: if_splits\<close>)
qed

text \<open>C17: Everything ends. In any execution of the process, however it is scheduled and whatever
  Redis and the upstream reply, once the context is done each goroutine that is not the
  claimer makes finitely many moves of its own: a consumer finishes the message it is
  handling, if any, and returns before it reads another, and a request is answered. (The
  claimer's select may still prefer its ticker to the context.)\<close>

theorem stopped_goroutines_end:
  assumes "\<And>n. exec_life E d (ev n) (f n) = Some (f (Suc n))" and "cancelled (f 0)"
    and "i < length (procs (running (f 0)))" and "\<not> is_claimer (procs (running (f 0)) ! i)"
  shows "finite {n. ev n \<in> {Work (Run_thread i), Work (Turn i)} \<and> procs (running (f n)) ! i \<noteq> Done}"
proof -
  let ?t = "\<lambda>n. procs (running (f n)) ! i"
  let ?moves = "{n. ev n \<in> {Work (Run_thread i), Work (Turn i)} \<and> ?t n \<noteq> Done}"
  have inv: "cancelled (f n) \<and> i < length (procs (running (f n)))" for n
  proof (induction n)
    case (Suc n)
    then show ?case using stopped_event [OF assms(1)] by blast
  qed (use assms(2,3) in simp)
  note ev = stopped_event [OF assms(1) inv [THEN conjunct1] inv [THEN conjunct2], THEN conjunct2, THEN conjunct2]
  have "finite {m \<in> ?moves. 0 \<le> m}"
  proof (rule finitely_many_moves)
    show "ends E d (?t 0)" by (rule ends_others [OF assms(4)])
    show "stopped_move E d (?t (Suc m)) (?t m)" if "m \<in> ?moves" for m using ev [of m] that by auto
    show "?t (Suc m) = ?t m" if "m \<notin> ?moves" for m using ev [of m] that by (auto split: if_splits)
  qed
  then show ?thesis by simp
qed

lemma stop_stop: "stop (stop s) = stop s"
  by (simp add: stop_def)

theorem stopped_goroutines_end_witness:
  "\<exists>ev f. f (0 :: nat) = stop (start_service ex_dep ()) \<and> ev 0 = Work (Run_thread 0)
    \<and> finite {n. ev n \<in> {Work (Run_thread 0), Work (Turn 0)} \<and> procs (running (f n)) ! 0 \<noteq> Done}"
proof -
  let ?s = "stop (start_service ex_dep ())"
  obtain s1 s2 where e: "exec_life quiet_env ex_dep (Work (Run_thread 0)) ?s = Some s1"
      "exec_life quiet_env ex_dep (Work (Turn 0)) s1 = Some s2" and m: "main s2 \<noteq> Exited"
    by (simp add: start_service_def init_ex init_world_def stop_def iteration_def
      goroutine_iter_def consume_iter_def claim_iter_def blocked_def world_simps
      cong: Op_lazy bind_lazy)
  define f where "f n = (if n = 0 then ?s else if n = 1 then s1 else if n = 2 then s2 else stop s2)" for n :: nat
  define ev where "ev n = (if n = 0 then Work (Run_thread 0) else if n = 1 then Work (Turn 0) else Signal)" for n :: nat
  have m': "main (stop s2) \<noteq> Exited" using m by (simp add: stop_def)
  have "exec_life quiet_env ex_dep (ev n) (f n) = Some (f (Suc n))" for n
    using e m m' unfolding f_def ev_def by (cases "n = 0"; cases "n = 1"; cases "n = 2") (simp_all add: stop_stop)
  moreover have "cancelled (f 0)" by (simp add: f_def cancelled_def stop_def)
  moreover have "0 < length (procs (running (f 0)))" "\<not> is_claimer (procs (running (f 0)) ! 0)"
    by (simp_all add: f_def stop_def start_service_def init_ex is_claimer_def iteration_def)
  ultimately have "finite {n. ev n \<in> {Work (Run_thread 0), Work (Turn 0)} \<and> procs (running (f n)) ! 0 \<noteq> Done}"
    by (rule stopped_goroutines_end)
  then show ?thesis by (intro exI [of _ ev] exI [of _ f]) (simp add: f_def ev_def)
qed

end
