(* ===== verification/Wire_Properties.thy ===== *)
theory Wire_Properties
  imports Api_Properties
begin

text \<open>
  What goes over the wire: the JSON bodies the service reads and writes, as values.
\<close>

section \<open>The results of a program\<close>

text \<open>\<open>yields P p\<close>: whatever the replies, \<open>p\<close> returns something in \<open>P\<close>.\<close>

primrec yields :: "('a \<Rightarrow> bool) \<Rightarrow> 'a prog \<Rightarrow> bool" where
  "yields P (Ret x) \<longleftrightarrow> P x"
| "yields P (Op o' k) \<longleftrightarrow> (\<forall>r. yields P (k r))"

lemma yields_run: "yields P p \<Longrightarrow> P (result (run X p w))"
  by (induction p arbitrary: w) (simp_all add: run_simps)

lemma yields_bind: "(\<And>x. yields P (f x)) \<Longrightarrow> yields P (bind p f)"
  by (induction p) simp_all

section \<open>Answers\<close>

text \<open>An answer of the service's own: a JSON object, sent as such; an error answer has the
  one member \<open>error\<close>, a string.\<close>

definition json_answer :: "http_response \<Rightarrow> bool" where
  "json_answer resp \<longleftrightarrow> (\<exists>ms. parse_document (Suc max_nesting) (hs_body resp) = Some (VObject ms)
     \<and> (''Content-Type'', ''application/json; charset=utf-8'') \<in> set (hs_headers resp)
     \<and> (400 \<le> hs_status resp \<and> hs_status resp \<noteq> 503 \<longrightarrow> (\<exists>msg. ms = [(''error'', VString msg)])))"

lemma fits_Suc: "(\<And>k j. (k, j) \<in> set m \<Longrightarrow> fits j max_nesting) \<Longrightarrow> fits (JObj m) (Suc max_nesting)"
  by (auto simp: list_all_iff)

lemma object_read:
  assumes "fits (JObj m) (Suc max_nesting)"
  shows "\<exists>ms. parse_document (Suc max_nesting) (encode_document (JObj m)) = Some (VObject ms)"
  using encode_document_read [OF assms] by auto

lemma writeJSON_answer:
  assumes "\<And>k j. (k, j) \<in> set m \<Longrightarrow> fits j max_nesting" and "status < 400 \<or> status = 503"
  shows "json_answer (writeJSON status (JObj m))"
  using object_read [OF fits_Suc [OF assms(1)]] assms(2)
  by (auto simp: json_answer_def writeJSON_def)

lemma error_document:
  "parse_document (Suc max_nesting) (encode_document (JObj [(''error'', JStr msg)]))
     = Some (VObject [(''error'', VString (valid_utf8 msg))])"
proof -
  have "fits (JObj [(''error'', JStr msg)]) (Suc max_nesting)" by (rule fits_flat) simp_all
  from encode_document_read [OF this] show ?thesis by (simp add: valid_utf8_ascii)
qed

lemma writeError_answer [simp]: "json_answer (writeError status msg)"
  by (simp add: json_answer_def writeError_def writeJSON_def error_document)

lemma accepted_answer [simp]: "json_answer (accepted jid)"
  unfolding accepted_def by (rule writeJSON_answer) auto

lemma handleEnqueueError_answer [simp]: "json_answer (handleEnqueueError e)"
  using error_document
  by (simp add: handleEnqueueError_def json_answer_def writeError_def writeJSON_def)

lemma view_answer [simp]: "json_answer (writeJSON 200 (JObj (jobView j)))"
  by (rule writeJSON_answer) (auto simp: jobView_def rawOrString_def split: if_splits)

lemma parse_upload_answer: "parse_upload s r = Inl resp \<Longrightarrow> json_answer resp"
proof -
  have "json_answer e" if "read_upload n acc rs = Inl e" for n acc rs e
    using that by (induction n acc rs rule: read_upload.induct)
      (auto simp: Let_def split: if_splits option.splits)
  then show "parse_upload s r = Inl resp \<Longrightarrow> json_answer resp"
    by (auto simp: parse_upload_def split: sum.splits if_splits)
qed

lemma handlers_answer:
  "yields json_answer (handleUpload s newID r)" "yields json_answer (handleURL s up newID r)"
  "yields json_answer (handleGetJob jid r)" "yields json_answer (handleHealth s r)"
proof -
  show "yields json_answer (handleUpload s newID r)"
    by (auto simp: handleUpload_def parse_upload_answer intro!: yields_bind split: sum.split option.split)
  show "yields json_answer (handleURL s up newID r)"
    by (auto simp: handleURL_def Let_def intro!: yields_bind split: option.split)
  show "yields json_answer (handleGetJob jid r)"
    by (auto simp: handleGetJob_def intro!: yields_bind split: sum.split)
  show "yields json_answer (handleHealth s r)"
    unfolding handleHealth_def Let_def
    by (intro yields_bind) (auto simp: errString_def max_nesting_def intro!: writeJSON_answer split: option.split)
qed

text \<open>C31: Whatever a request that reaches an endpoint contains, and whatever Redis replies, the
  body of the answer is one JSON object that a client can decode, sent as JSON; when the
  status says that the request failed (400 and above, except for the report of
  \<open>/health\<close>), the object is \<open>{"error": message}\<close>. The reader needs one more level of nesting
  than \<open>encoding/json\<close> allows, for a stored result that is nested as deeply as it may be.\<close>

theorem answers_are_json:
  assumes "route (hr_method r) (hr_path r) = Found e vs"
  shows "\<exists>ms. parse_document (Suc max_nesting) (hs_body (fst (result (run X (Handler s up newJobID r) w))))
      = Some (VObject ms)
    \<and> (''Content-Type'', ''application/json; charset=utf-8'')
        \<in> set (hs_headers (fst (result (run X (Handler s up newJobID r) w))))
    \<and> (400 \<le> hs_status (fst (result (run X (Handler s up newJobID r) w)))
        \<and> hs_status (fst (result (run X (Handler s up newJobID r) w))) \<noteq> 503
        \<longrightarrow> (\<exists>msg. ms = [(''error'', VString msg)]))"
proof -
  have "yields json_answer (dispatch s up newJobID r)"
    using assms handlers_answer by (cases e) (simp_all add: dispatch_def auth_def Let_def)
  from yields_run [OF this, of X w] show ?thesis
    by (simp add: Handler_def run_simps json_answer_def)
qed

theorem answers_are_json_witness:
  "\<exists>ms. parse_document (Suc max_nesting)
     (hs_body (fst (result (run ex_gateway (Handler ex_server (\<lambda>_. None) newJobID (ex_request [])) ())))) = Some (VObject ms)"
proof -
  have "route (hr_method (ex_request [])) (hr_path (ex_request [])) = Found Upload []"
    by (simp add: ex_request_def ex_route)
  from answers_are_json [OF this, of ex_gateway ex_server "\<lambda>_. None" "()"] show ?thesis by blast
qed

section \<open>Polling\<close>

lemma join_infix: "x \<in> set xs \<Longrightarrow> \<exists>a b. join xs = a @ x @ b"
proof (induction xs rule: join.induct)
  case (2 y)
  then have "join [y] = [] @ x @ []" by simp
  then show ?case by blast
next
  case (3 y z zs)
  show ?case
  proof (cases "x = y")
    case True
    then have "join (y # z # zs) = [] @ x @ CHR '','' # join (z # zs)" by simp
    then show ?thesis by blast
  next
    case False
    with 3 obtain a b where "join (z # zs) = a @ x @ b" by auto
    then have "join (y # z # zs) = (y @ CHR '','' # a) @ x @ b" by simp
    then show ?thesis by blast
  qed
qed simp

lemma member_text:
  assumes "(k, j) \<in> set m"
  shows "\<exists>a b. encode_document (JObj m) = a @ encode j @ b"
proof -
  let ?f = "\<lambda>(k, e). encode_string k @ CHR '':'' # e"
  let ?xs = "map ?f (sort_key fst (map (map_prod id encode) m))"
  have "?f (k, encode j) \<in> set ?xs" using assms by force
  from join_infix [OF this] obtain a b where "join ?xs = a @ (encode_string k @ CHR '':'' # encode j) @ b" by auto
  then have "encode_document (JObj m)
      = (CHR ''{'' # a @ encode_string k @ '':'') @ encode j @ b @ [CHR ''}'', CHR 0x0A]"
    by (simp add: encode_document_def encode.simps)
  then show ?thesis by blast
qed

lemma object_lookup:
  assumes "fits (JObj m) d" and "distinct (map fst m)" and "list_all (\<lambda>(k, j). valid_utf8 k = k) m"
  shows "\<exists>ms. parse_document d (encode_document (JObj m)) = Some (VObject ms)
    \<and> (\<forall>k. map_of ms k = map_option json_value (map_of m k))"
proof -
  let ?s = "sort_key fst m"
  have v: "json_value (JObj m) = VObject (map (map_prod id json_value) ?s)"
  proof -
    have "map (apfst valid_utf8) (map (map_prod id json_value) ?s) = map (map_prod id json_value) ?s"
      using assms(3) by (auto simp: list_all_iff apfst_def)
    then show ?thesis by (simp add: sort_map_prod del: map_map)
  qed
  have d: "distinct (map fst ?s)" using assms(2) by (simp add: distinct_map)
  have "map_of ?s = map_of m" by (subst map_of_inject_set) (simp_all add: d assms(2))
  then have "map_of (map (map_prod id json_value) ?s) k = map_option json_value (map_of m k)" for k
    by (simp add: map_of_map [unfolded comp_def] map_prod_def)
  with encode_document_read [OF assms(1)] v show ?thesis by auto
qed

text \<open>The members of the answer to a poll.\<close>

lemma view_read:
  "\<exists>ms. parse_document (Suc max_nesting) (hs_body (writeJSON 200 (JObj (jobView j)))) = Some (VObject ms)
    \<and> (\<forall>k. map_of ms k = map_option json_value (map_of (jobView j) k))"
proof -
  have "fits (JObj (jobView j)) (Suc max_nesting)"
    by (rule fits_Suc) (auto simp: jobView_def rawOrString_def split: if_splits)
  moreover have "distinct (map fst (jobView j))" "list_all (\<lambda>(k, j). valid_utf8 k = k) (jobView j)"
    by (auto simp: jobView_def valid_utf8_ascii)
  ultimately have "\<exists>ms. parse_document (Suc max_nesting) (encode_document (JObj (jobView j))) = Some (VObject ms)
      \<and> (\<forall>k. map_of ms k = map_option json_value (map_of (jobView j) k))" by (rule object_lookup)
  then show ?thesis by (simp add: writeJSON_def)
qed

text \<open>C10: A poll of a job that Redis knows is answered with its state: the members of the body are
  the stored fields, the optional ones when they are not empty, and \<open>result\<close> is the value of
  the stored text when that is JSON and the text itself otherwise. What a client gets is the
  value: the bytes are those of the stored text only up to the compaction of the encoder.\<close>

theorem poll_shows_stored_state:
  fixes X w jid r vals
  assumes "as_hashE (fst (X w (OHGetAll (jobKey jid)))) = Inr vals" and "vals \<noteq> []"
    and "j = job_of_hash jid vals"
  defines "resp \<equiv> result (run X (handleGetJob jid r) w)"
  shows "hs_status resp = 200 \<and> (\<exists>ms. parse_document (Suc max_nesting) (hs_body resp) = Some (VObject ms)
      \<and> map_of ms ''jobId'' = Some (VString (valid_utf8 jid))
      \<and> map_of ms ''status'' = Some (VString (valid_utf8 (job_Status j)))
      \<and> map_of ms ''createdAt'' = Some (VString (valid_utf8 (job_CreatedAt j)))
      \<and> map_of ms ''completedAt'' = (if job_CompletedAt j = [] then None
           else Some (VString (valid_utf8 (job_CompletedAt j))))
      \<and> map_of ms ''error'' = (if job_Error j = [] then None else Some (VString (valid_utf8 (job_Error j))))
      \<and> map_of ms ''result'' = (if job_Result j = [] then None
           else case parse_document max_nesting (job_Result j) of
             Some v \<Rightarrow> Some v | None \<Rightarrow> Some (VString (valid_utf8 (job_Result j)))))
    \<and> (json_Valid (job_Result j) \<longrightarrow> (\<exists>a b. hs_body resp = a @ compact False (job_Result j) @ b))"
proof -
  have resp: "resp = writeJSON 200 (JObj (jobView j))"
    using assms(1,2) unfolding resp_def assms(3)
    by (simp add: handleGetJob_def run_simps run_store_simps result_Get)
  have id: "job_ID j = jid" by (simp add: assms(3) job_of_hash_def)
  from view_read [of j] obtain ms where ms: "parse_document (Suc max_nesting) (hs_body resp) = Some (VObject ms)"
    "\<forall>k. map_of ms k = map_option json_value (map_of (jobView j) k)" unfolding resp by blast
  have bytes: "\<exists>a b. hs_body resp = a @ compact False (job_Result j) @ b" if v: "json_Valid (job_Result j)"
  proof -
    have "job_Result j \<noteq> []" using v by (auto simp: json_Valid_def parse_document_def parse_value.simps [of _ "[]"])
    then have "(''result'', JRaw (job_Result j)) \<in> set (jobView j)"
      using v by (simp add: jobView_def rawOrString_def)
    from member_text [OF this] show ?thesis by (simp add: resp writeJSON_def encode.simps)
  qed
  have "hs_status resp = 200" by (simp add: resp writeJSON_def)
  with ms bytes show ?thesis
    by (intro conjI impI exI [of _ ms])
      (auto simp: jobView_def id rawOrString_def json_Valid_def split: option.splits)
qed

theorem poll_shows_stored_state_witness:
  "let resp = result (run (\<lambda>u o'. (RHashE (Inr [(''status'', StatusCompleted), (''result'', ''[1, 2]'')]), u))
       (handleGetJob ''7'' (ex_request [])) ())
   in hs_status resp = 200 \<and> (\<exists>a b. hs_body resp = a @ ''[1,2]'' @ b)"
proof -
  let ?X = "\<lambda>u o'. (RHashE (Inr [(''status'', StatusCompleted), (''result'', ''[1, 2]'')]), u)"
  let ?j = "job_of_hash ''7'' [(''status'', StatusCompleted), (''result'', ''[1, 2]'')]"
  have "json_Valid (job_Result ?j)" and "compact False (job_Result ?j) = ''[1,2]''"
    by (simp_all add: job_of_hash_def) code_simp+
  with poll_shows_stored_state [of ?X "()" "''7''" "[(''status'', StatusCompleted), (''result'', ''[1, 2]'')]" ?j
      "ex_request []"]
  show ?thesis by simp
qed

section \<open>The URL request\<close>

text \<open>C32: The JSON body of a URL request is read as it was written: from the encoding of a URL and
  a language in valid UTF-8, in whatever pieces it arrives, within the megabyte that is
  read, the handler decodes exactly these two strings. Only the first value counts: what
  follows it, even an error of the connection or more data than the limit, is not looked at.\<close>

theorem url_request_round_trip:
  assumes "valid_utf8 u = u" and "valid_utf8 l = l"
    and "length (url_request_document u l) \<le> 2 ^ 20"
    and "received (hr_body r) = (url_request_document u l @ t, e)"
  shows "url_body r = Some \<lparr>ur_URL = u, ur_Language = l\<rparr>"
proof -
  let ?s = "url_request_document u l" and ?j = "JObj [(''url'', JStr u), (''language'', JStr l)]"
  define b where "b = max_bytes (2 ^ 20) (?s @ t, e)"
  have "take (2 ^ 20) (?s @ t) = ?s @ take (2 ^ 20 - length ?s) t" using assms(3) by simp
  then have "fst b = ?s @ t \<or> fst b = ?s @ take (2 ^ 20 - length ?s) t"
    by (simp add: b_def max_bytes_def)
  then obtain t' where b: "fst b = encode ?j @ CHR 0x0A # t'"
    by (auto simp: url_request_document_def encode_document_def)
  have "fits ?j max_nesting" by (rule fits_flat) (simp_all add: max_nesting_def)
  from reads_asD [OF encode_read [OF this] order_refl] b
  have p: "parse_value max_nesting (fst b) = Some (json_value ?j, CHR 0x0A # t')" by simp
  have "json_value ?j = VObject [(''language'', VString l), (''url'', VString u)]"
    using string_less assms(1,2) by (simp add: valid_utf8_ascii not_less_iff_gr_or_eq)
  moreover have "lower CHR ''l'' \<noteq> lower CHR ''u''" by (simp add: lower_def)
  ultimately show ?thesis
    using p assms(4)
    by (simp add: url_body_def b_def decode_value_def decode_url_request_def equal_fold_def)
qed

theorem url_request_round_trip_witness:
  "url_body \<lparr>hr_method = ''POST'', hr_path = [''transcribe'', ''url''], hr_headers = [],
     hr_multipart = (\<lambda>_. Inl RedisNil),
     hr_body = [(take 9 url_document, None), (drop 9 url_document @ ''}}'', Some CtxCanceled)]\<rparr>
   = Some \<lparr>ur_URL = ''http://h/a'', ur_Language = []\<rparr>"
proof (rule url_request_round_trip [where t = "''}}''" and e = CtxCanceled])
  show "valid_utf8 ''http://h/a'' = ''http://h/a''" by (rule valid_utf8_ascii) simp
  show "length (url_request_document ''http://h/a'' []) \<le> 2 ^ 20"
    using url_document_short by (simp add: url_document_def)
  have "take 9 url_document @ drop 9 url_document @ x = url_document @ x" for x
    by (simp flip: append_assoc)
  then show "received (hr_body \<lparr>hr_method = ''POST'', hr_path = [''transcribe'', ''url''], hr_headers = [],
     hr_multipart = (\<lambda>_. Inl RedisNil),
     hr_body = [(take 9 url_document, None), (drop 9 url_document @ ''}}'', Some CtxCanceled)]\<rparr>)
    = (url_request_document ''http://h/a'' [] @ ''}}'', CtxCanceled)"
    by (simp add: url_document_def)
qed (simp)

end
