(* ===== verification/End_To_End.thy ===== *)
theory End_To_End
  imports Queue_Properties Wire_Properties Worker_Properties
begin

text \<open>
  One job from its submission to the poll that shows its result: the endpoints, Redis, the
  worker, the upstream and the JSON of the answer composed.
\<close>

section \<open>The environment\<close>

text \<open>
  A submission: the endpoint that takes the request, the source of the audio and its URL,
  the language, and the file name and bytes the worker is to find.
\<close>

definition submitted ::
  "('e \<Rightarrow> op \<Rightarrow> reply \<times> 'e) \<Rightarrow> (string \<Rightarrow> string option) \<Rightarrow> (string \<Rightarrow> url option) \<Rightarrow> server \<Rightarrow> pool
     \<Rightarrow> http_request \<Rightarrow> http_response prog \<Rightarrow> submission \<Rightarrow> string \<Rightarrow> string \<Rightarrow> bool" where
  "submitted E url_path url_parse s p r h sub f bs \<longleftrightarrow>
     h = handleUpload s newJobID r \<and> sub = upload_submission s r
       \<and> (\<exists>lang. parse_upload s r = Inr (f, bs, lang))
     \<or> h = handleURL s url_parse newJobID r \<and> sub = url_submission s r
       \<and> (\<forall>e. download_result url_path (fst (snd sub)) (maxAudioBytes p)
              (as_respE (fst (E e (OGet (fst (snd sub)) (downloadTimeout p))))) = Inr (f, bs))"

lemma url_submission_source: "fst (url_submission s r) = SourceURL"
  by (simp add: url_submission_def split: option.split)

text \<open>After an accepted submission the audio can be had, and the gate is as it was.\<close>

lemma submitted_available:
  assumes "submitted E up ps s p r h sub f bs" and "hs_status (result (run (step_op E) h w)) = 202"
  shows "audio_available E up p (mem (final (run (step_op E) h w)))
      (queued_job (result (run (step_op E) newJobID w)) sub at) f bs"
  using assms(1) unfolding submitted_def
proof
  assume u: "h = handleUpload s newJobID r \<and> sub = upload_submission s r
    \<and> (\<exists>lang. parse_upload s r = Inr (f, bs, lang))"
  then obtain lang where h: "h = handleUpload s newJobID r" and p: "parse_upload s r = Inr (f, bs, lang)"
    and src: "fst sub = SourceUpload" by (auto simp: upload_submission_def)
  from assms(2) have "hs_status (result (run (step_op E) (handleUpload s newJobID r) w)) \<notin> {429, 500}" unfolding h by simp
  then have "\<exists>q. clip_of (mem (final (run (step_op E) h w))) (result (run (step_op E) newJobID w)) = Some q
      \<and> Filename (clips (mem (final (run (step_op E) h w))) q) = f
      \<and> read_slice (Data (clips (mem (final (run (step_op E) h w))) q)) (mem (final (run (step_op E) h w))) = bs"
    using upload_outcome [OF p, of E w, THEN conjunct1] unfolding h by blast
  with src show ?thesis by (simp add: audio_available_def queued_job_def)
next
  assume "h = handleURL s ps newJobID r \<and> sub = url_submission s r
    \<and> (\<forall>e. download_result up (fst (snd sub)) (maxAudioBytes p)
          (as_respE (fst (E e (OGet (fst (snd sub)) (downloadTimeout p))))) = Inr (f, bs))"
  then have sub: "sub = url_submission s r" and d: "\<forall>e. download_result up (fst (snd sub)) (maxAudioBytes p)
      (as_respE (fst (E e (OGet (fst (snd sub)) (downloadTimeout p))))) = Inr (f, bs)"
    by blast+
  have "fst sub = SourceURL" by (simp add: sub url_submission_source)
  with d show ?thesis by (simp add: audio_available_def queued_job_def)
qed

fun gate_free :: "op \<Rightarrow> bool" where
  "gate_free OGate = False"
| "gate_free OGateRelease = False"
| "gate_free _ = True"

lemma gate_kept: "only gate_free p \<Longrightarrow> gate (final (run (step_op E) p w)) = gate w"
proof (induction p arbitrary: w)
  case (Op o' k)
  have "gate (snd (step_op E w o')) = gate w"
  proof (cases "external o'")
    case True
    then show ?thesis by (simp add: step_op_external)
  next
    case False
    with Op.prems show ?thesis by (cases o') (simp_all add: world_simps Let_def split: prod.split)
  qed
  with Op show ?case by (simp add: run_simps)
qed (simp add: run_simps)

lemma external_gate_free: "only external p \<Longrightarrow> only gate_free p"
  by (erule only_mono) (case_tac o'; simp)

lemma endpoint_gate_free: "only gate_free (handleUpload s newJobID r)" "only gate_free (handleURL s ps newJobID r)"
proof -
  have e: "only gate_free (CreateAndEnqueue st j)" "only gate_free newJobID" "only gate_free (newQueuedJob a b c d)"
    for st j a b c d
    by (auto simp: newQueuedJob_def now_rfc3339_def intro!: external_gate_free only_store(8) newJobID_external)
  show "only gate_free (handleUpload s newJobID r)"
    using e by (auto simp: handleUpload_def intro!: only_bind split: sum.split option.split)
  show "only gate_free (handleURL s ps newJobID r)"
    using e by (auto simp: handleURL_def Let_def intro!: only_bind split: option.split)
qed

section \<open>From submission to result\<close>

text \<open>The first thing \<open>handle\<close> does with Redis is to read the job.\<close>

lemma handle_reads:
  "\<exists>(q :: unit prog) w'. final (run (step_op E) (handle up p m) w) = final (run (step_op E) q w')
    \<and> ext w' = snd (E (ext w) (OHGetAll (jobKey (JobID m))))"
proof -
  obtain k where "handle up p m = Op (OInFlight 1) (\<lambda>_. Op (OHGetAll (jobKey (JobID m))) k)"
    by (simp add: handle_def handle_body_def Get_def)
  then have "final (run (step_op E) (handle up p m) w)
      = final (run (step_op E) (k (fst (E (ext w) (OHGetAll (jobKey (JobID m))))))
          (w\<lparr>in_flight := in_flight w + 1, ext := snd (E (ext w) (OHGetAll (jobKey (JobID m))))\<rparr>))"
    by (simp add: run_simps world_simps(10) step_op_external)
  moreover have "ext (w\<lparr>in_flight := in_flight w + 1, ext := snd (E (ext w) (OHGetAll (jobKey (JobID m))))\<rparr>)
      = snd (E (ext w) (OHGetAll (jobKey (JobID m))))" by simp
  ultimately show ?thesis by blast
qed

lemma queued_job_fields:
  "job_Status (queued_job jid sub at) = StatusQueued" "job_Language (queued_job jid sub at) = snd (snd sub)"
  by (simp_all add: queued_job_def)

text \<open>C1: The service does its job: when a client submits audio (an upload, or a URL that can be
  downloaded) and is answered 202, a worker that is handed the message of this job sends
  the upstream one request with the file name and exactly the bytes that were submitted, in
  the language asked for or else the default, and a poll after that, within the TTL of the
  submission, is answered 200 with status completed and the value of the upstream's answer;
  the message is gone. (For any Redis with the stated laws that answers, and an upstream
  that answers \<open>body\<close>; the gate is free and the identifier fresh.)\<close>

theorem submission_to_result:
  fixes E h w up p m r'
  defines "z1 \<equiv> run (step_op E) h w" and "jid \<equiv> result (run (step_op E) newJobID w)"
  defines "z2 \<equiv> run (step_op E) (handle up p m) (final z1)"
  defines "z3 \<equiv> run (step_op E) (handleGetJob jid r') (final z2)"
  assumes "redis_server E now db stream next_id" and "redis_up E" and "upstream_up E body"
    and "submitted E up ps s p r h sub f bs" and "hs_status (result z1) = 202"
    and "db (ext w) (jobKey jid) = None" and "\<not> gate w"
    and "JobID m = jid" and "pool_store p = srv_store s" and "0 < jobTTL (srv_store s)"
    and "now (ext (final z3)) < now (ext w) + expire_ns (jobTTL (srv_store s))"
  shows "filter post_op (ops z2) = [OPost (whisper_request (pool_whisper p) f bs
        (if snd (snd sub) = [] then defaultLanguage p else snd (snd sub))) (http_timeout (pool_whisper p))]
    \<and> hs_status (result z3) = 200
    \<and> (\<exists>ms. parse_document (Suc max_nesting) (hs_body (result z3)) = Some (VObject ms)
         \<and> map_of ms ''status'' = Some (VString ''completed'')
         \<and> (body \<noteq> [] \<longrightarrow> map_of ms ''result'' = (case parse_document max_nesting body of
              Some v \<Rightarrow> Some v | None \<Rightarrow> Some (VString (valid_utf8 body)))))
    \<and> MessageID m \<notin> x_id ` set (stream (ext (final z2)))"
proof -
  let ?k = "jobKey jid" and ?ttl = "jobTTL (srv_store s)" and ?w1 = "final z1"
  have ends: "h = handleUpload s newJobID r \<and> sub = upload_submission s r
      \<or> h = handleURL s ps newJobID r \<and> sub = url_submission s r"
    using assms(8) unfolding submitted_def by blast
  from accepted_in_redis [OF assms(5,14) ends] assms(9,10) obtain at fs dl where
    d: "db (ext ?w1) ?k = Some (fs, Some dl)" "now (ext w) + expire_ns ?ttl \<le> dl"
      "job_of_hash jid fs = queued_job jid sub at"
    unfolding z1_def jid_def by blast
  note now_run = redis_server.now_run [OF assms(5)]
  have n3: "now (ext (final z3)) = now (snd (E (ext (final z2)) (OHGetAll ?k)))"
    by (cases "result (run (step_op E) (Get jid) (final z2))")
      (simp_all add: z3_def handleGetJob_def run_simps run_store_simps step_op_external)
  from handle_reads [of E up p m ?w1] obtain q :: "unit prog" and w' where q: "final z2 = final (run (step_op E) q w')"
    "ext w' = snd (E (ext ?w1) (OHGetAll ?k))" unfolding z2_def assms(12) by blast
  have "now (snd (E (ext ?w1) (OHGetAll ?k))) \<le> now (ext (final z2))"
    using now_run [of w' q] q by simp
  also have "\<dots> \<le> now (ext (final z3))" unfolding z3_def by (rule now_run)
  finally have early: "now (snd (E (ext ?w1) (OHGetAll ?k))) < dl" using assms(15) d(2) by simp
  from assms(6) obtain fs' where "fst (E (ext ?w1) (OHGetAll ?k)) = RHashE (Inr fs')"
    unfolding redis_up_def by blast
  moreover from redis_server.hgetall [OF assms(5) this] d(1) early have "fs' = fs" by (simp add: live_def)
  ultimately have got: "fst (E (ext ?w1) (OHGetAll (jobKey (JobID m)))) = RHashE (Inr fs)"
    by (simp add: assms(12))
  have j: "job_of_hash (JobID m) fs = queued_job jid sub at" by (simp add: assms(12) d(3))
  have "fs \<noteq> []"
    using d(3) by (auto simp: job_of_hash_def queued_job_def hget_def zero_job_def status_defs)
  have av: "audio_available E up p (mem ?w1) (job_of_hash (JobID m) fs) f bs"
    using submitted_available [OF assms(8)] assms(9) unfolding j z1_def jid_def by blast
  have g: "\<not> gate ?w1"
    using ends assms(11) gate_kept [OF endpoint_gate_free(1), of E s r w]
      gate_kept [OF endpoint_gate_free(2), of E s ps r w] unfolding z1_def by auto
  have st: "job_Status (job_of_hash (JobID m) fs) \<notin> {StatusCompleted, StatusFailed}"
    by (simp add: j queued_job_fields status_defs)
  from healthy_run [OF got \<open>fs \<noteq> []\<close> st av assms(7) g] obtain at' where
    r: "filter redis_op (ops z2) = outcome_ops p m (Completed body at')"
    and po: "filter post_op (ops z2) = [OPost (whisper_request (pool_whisper p) f bs
          (job_language p (job_of_hash (JobID m) fs))) (http_timeout (pool_whisper p))]"
    unfolding z2_def by blast
  have tx: "OTx (update_cmds (pool_store p) (JobID m) (completed_fields body at')) \<in> set (ops z2)"
  proof -
    have "OTx (update_cmds (pool_store p) (JobID m) (completed_fields body at')) \<in> set (filter redis_op (ops z2))"
      unfolding r by (simp add: outcome_ops_def)
    then show ?thesis by simp
  qed
  have ack: "acknowledged (events z2)" unfolding z2_def by (rule redis_up_acknowledged [OF assms(6)])
  have ttl: "0 < jobTTL (pool_store p)" using assms(13,14) by simp
  from completed_readable [OF assms(5) ttl ack [unfolded z2_def] tx [unfolded z2_def], of r', folded z2_def]
  obtain j' dl' where j': "job_Status j' = StatusCompleted" "job_Result j' = body"
    "now (ext ?w1) + expire_ns (jobTTL (pool_store p)) \<le> dl'"
    "MessageID m \<notin> x_id ` set (stream (ext (final z2)))"
    and poll: "\<forall>fs. fst (E (ext (final z2)) (OHGetAll (jobKey (JobID m)))) = RHashE (Inr fs)
         \<and> now (snd (E (ext (final z2)) (OHGetAll (jobKey (JobID m))))) < dl'
         \<longrightarrow> result (run (step_op E) (handleGetJob (JobID m) r') (final z2))
             = writeJSON 200 (JObj (jobView j'))" by blast
  have "now (ext w) \<le> now (ext ?w1)" unfolding z1_def by (rule now_run)
  then have "now (snd (E (ext (final z2)) (OHGetAll ?k))) < dl'"
    using j'(3) assms(13,15) n3 by simp
  with poll assms(6,12) have res: "result z3 = writeJSON 200 (JObj (jobView j'))"
    unfolding z3_def redis_up_def by blast
  from view_read [of j'] obtain ms where ms: "parse_document (Suc max_nesting) (hs_body (result z3)) = Some (VObject ms)"
    "\<forall>k. map_of ms k = map_option json_value (map_of (jobView j') k)" unfolding res by blast
  have "hs_status (result z3) = 200" by (simp add: res writeJSON_def)
  moreover have "map_of ms ''status'' = Some (VString ''completed'')"
    using ms(2) j'(1) by (simp add: jobView_def status_defs valid_utf8_ascii)
  moreover have "body \<noteq> [] \<longrightarrow> map_of ms ''result'' = (case parse_document max_nesting body of
              Some v \<Rightarrow> Some v | None \<Rightarrow> Some (VString (valid_utf8 body)))"
    using ms(2) j'(2) by (auto simp: jobView_def rawOrString_def json_Valid_def split: option.splits)
  moreover have "job_language p (job_of_hash (JobID m) fs)
      = (if snd (snd sub) = [] then defaultLanguage p else snd (snd sub))"
    by (simp add: j job_language_def queued_job_fields)
  ultimately show ?thesis using ms(1) po j'(4) by auto
qed

section \<open>A witness\<close>

text \<open>The reference Redis with a clock that stands still and an upstream that answers every
  request with 200.\<close>

definition still_env :: "redis_state \<Rightarrow> op \<Rightarrow> reply \<times> redis_state" where
  "still_env s o' =
     (case o' of
        OPost req t \<Rightarrow> (RRespE (Inr \<lparr>resp_status = 200, resp_length = 2, resp_body = [(''{}'', None)]\<rparr>), s)
      | _ \<Rightarrow> (fst (ref_env s o'), (snd (ref_env s o'))\<lparr>r_now := r_now s\<rparr>))"

lemma still_env_eq: "(\<And>req t. o' \<noteq> OPost req t)
    \<Longrightarrow> still_env s o' = (fst (ref_env s o'), (snd (ref_env s o'))\<lparr>r_now := r_now s\<rparr>)"
  by (cases o') (auto simp: still_env_def)

lemma still_now: "r_now (snd (still_env s o')) = r_now s"
  by (cases o') (simp_all add: still_env_def)

lemma still_laws: "redis_server still_env r_now r_db r_stream fresh_id"
proof
  fix e o'
  show "r_now e \<le> r_now (snd (still_env e o'))" by (simp add: still_now)
  show "tx_of o' = None \<Longrightarrow> r_db (snd (still_env e o')) = r_db e \<and> r_stream (snd (still_env e o')) = r_stream e"
    using ref.frame [of o' e] by (cases o') (simp_all add: still_env_def)
qed (simp_all add: still_env_eq ref_tx_data fresh_id_fresh)

lemma still_up: "redis_up still_env" "upstream_up still_env ''{}''"
  by (simp_all add: redis_up_def upstream_up_def still_env_def response_result_def)

lemma still_run: "r_now (ext (final (run (step_op still_env) p w))) = r_now (ext w)"
proof (induction p arbitrary: w)
  case (Op o' k)
  have "r_now (ext (snd (step_op still_env w o'))) = r_now (ext w)"
  proof (cases "external o'")
    case True
    then show ?thesis by (simp add: step_op_external still_now)
  next
    case False
    then show ?thesis
      using still_now [of "ext w" OGate] by (cases o') (auto simp: world_simps Let_def split: prod.split)
  qed
  with Op show ?case by (simp add: run_simps)
qed (simp add: run_simps)

lemma still_accepted:
  "hs_status (result (run (step_op still_env) (handleUpload ex_server newJobID (ex_request [])) ref_world)) = 202"
  unfolding handleUpload_eq [OF ex_parse]
  by (simp add: newJobID_def enqueue_def newQueuedJob_def now_rfc3339_def CreateAndEnqueue_def run_unfold
      still_env_def ref_world_def init_world_def ref_state_def ex_server_def accepted_def writeJSON_def
      alloc_buf_def alloc_clip_def NewStore_def ref_tx_data)

definition server_pool :: pool where
  "server_pool = ex_pool\<lparr>pool_store := srv_store ex_server\<rparr>"

theorem submission_to_result_witness:
  "let jid = result (run (step_op still_env) newJobID ref_world);
       z1 = run (step_op still_env) (handleUpload ex_server newJobID (ex_request [])) ref_world;
       z2 = run (step_op still_env) (handle (\<lambda>_. None) server_pool \<lparr>MessageID = ''1'', JobID = jid\<rparr>) (final z1);
       z3 = run (step_op still_env) (handleGetJob jid (ex_request [])) (final z2)
   in filter post_op (ops z2) = [OPost (whisper_request (pool_whisper server_pool) ''a.wav'' ''RIFF'' ''pt'')
        (http_timeout (pool_whisper server_pool))] \<and> hs_status (result z3) = 200"
proof -
  have sub: "submitted still_env (\<lambda>_. None) (\<lambda>_. None) ex_server server_pool (ex_request [])
      (handleUpload ex_server newJobID (ex_request [])) (upload_submission ex_server (ex_request [])) ''a.wav'' ''RIFF''"
    using ex_parse [of "[]"] by (auto simp: submitted_def)
  have lang: "snd (snd (upload_submission ex_server (ex_request []))) = ''pt''"
    using ex_parse [of "[]"] by (simp add: upload_submission_def)
  have "r_db (ext ref_world) (jobKey (result (run (step_op still_env) newJobID ref_world))) = None" "\<not> gate ref_world"
    by (simp_all add: ref_world_def init_world_def ref_state_def)
  note t = submission_to_result [OF still_laws still_up sub still_accepted this,
      of "\<lparr>MessageID = ''1'', JobID = result (run (step_op still_env) newJobID ref_world)\<rparr>" "ex_request []"]
  have "0 < expire_ns Hour" by (simp add: Hour_def expire_ns_def Second_def)
  then show ?thesis
    using t lang by (simp add: Let_def still_run server_pool_def ex_server_def Hour_def)
qed

end
