(* ===== verification/Job_Board.thy ===== *)
theory Job_Board
  imports Queue_Properties
begin

text \<open>
  An abstract specification of the queue, and its refinement: a board of jobs and a list
  of messages, changed by six events. The detailed transactions on hashes with deadlines
  implement them, one event each; between transactions only entries may expire.
\<close>

section \<open>The specification\<close>

record board =
  entries :: "string \<Rightarrow> job option"
  messages_of :: "(string \<times> string) list"

datatype board_event =
    Enqueued string job
  | Started string
  | Succeeded string string string
  | Gave_up string string string
  | Removed string
  | Expired "string set"

text \<open>The job of an identifier; one whose entry is missing starts blank.\<close>

definition entry :: "board \<Rightarrow> string \<Rightarrow> job" where
  "entry b jid = (case entries b jid of Some j \<Rightarrow> j | None \<Rightarrow> zero_job\<lparr>job_ID := jid\<rparr>)"

definition set_entry :: "string \<Rightarrow> (job \<Rightarrow> job) \<Rightarrow> board \<Rightarrow> board" where
  "set_entry jid f b = b\<lparr>entries := (entries b)(jid \<mapsto> f (entry b jid))\<rparr>"

fun board_apply :: "board_event \<Rightarrow> board \<Rightarrow> board" where
  "board_apply (Enqueued mid j) b =
     (set_entry (job_ID j) (\<lambda>old. old\<lparr>job_Status := job_Status j, job_Source := job_Source j,
        job_URL := job_URL j, job_Language := job_Language j, job_CreatedAt := job_CreatedAt j\<rparr>) b)
       \<lparr>messages_of := messages_of b @ [(mid, job_ID j)]\<rparr>"
| "board_apply (Started jid) b = set_entry jid (\<lambda>j. j\<lparr>job_Status := StatusProcessing\<rparr>) b"
| "board_apply (Succeeded jid body at) b =
     set_entry jid (\<lambda>j. j\<lparr>job_Status := StatusCompleted, job_Result := body, job_CompletedAt := at\<rparr>) b"
| "board_apply (Gave_up jid msg at) b =
     set_entry jid (\<lambda>j. j\<lparr>job_Status := StatusFailed, job_Error := msg, job_CompletedAt := at\<rparr>) b"
| "board_apply (Removed mid) b = b\<lparr>messages_of := filter (\<lambda>(i, jid). i \<noteq> mid) (messages_of b)\<rparr>"
| "board_apply (Expired gone) b = b\<lparr>entries := (\<lambda>jid. if jid \<in> gone then None else entries b jid)\<rparr>"

fun durable :: "board_event \<Rightarrow> bool" where
  "durable (Expired gone) = False"
| "durable _ = True"

section \<open>The abstraction\<close>

definition shown :: "int \<Rightarrow> hashes \<Rightarrow> string \<Rightarrow> job option" where
  "shown t b jid = (if live t b (jobKey jid) = [] then None
     else Some (job_of_hash jid (live t b (jobKey jid))))"

fun board_of :: "int \<Rightarrow> data \<Rightarrow> board" where
  "board_of t (b, st) =
     \<lparr>entries = shown t b, messages_of = map (\<lambda>m. (x_id m, hget (x_values m) fieldJobID)) st\<rparr>"

lemma entry_board: "entry (board_of t (b, st)) jid = job_of_hash jid (live t b (jobKey jid))"
  by (simp add: entry_def shown_def job_of_hash_def zero_job_def)

lemma jobKey_inject [simp]: "jobKey i = jobKey j \<longleftrightarrow> i = j"
  by (simp add: jobKey_def)

text \<open>Time alone makes entries disappear.\<close>

lemma board_later:
  assumes "t \<le> t'"
  shows "\<exists>gone. board_of t' d = board_apply (Expired gone) (board_of t d)"
proof -
  obtain b st where d: "d = (b, st)" by (cases d)
  have "live t' b k = [] \<or> live t' b k = live t b k" for k
    using assms by (auto simp: live_def split: option.splits)
  then have "shown t' b = (\<lambda>jid. if jid \<in> {jid. live t' b (jobKey jid) = []} then None else shown t b jid)"
    by (simp add: shown_def fun_eq_iff) metis
  then show ?thesis by (intro exI [of _ "{jid. live t' b (jobKey jid) = []}"]) (simp add: d cong: if_cong)
qed

lemma job_of_merge:
  "job_of_hash jid (hmerge fs processing_fields) = (job_of_hash jid fs)\<lparr>job_Status := StatusProcessing\<rparr>"
  "job_of_hash jid (hmerge fs (failed_fields msg at)) =
     (job_of_hash jid fs)\<lparr>job_Status := StatusFailed, job_Error := msg, job_CompletedAt := at\<rparr>"
  by (simp_all add: job_of_hash_def hget_def map_of_hmerge processing_fields_def failed_fields_def)

text \<open>An update with a positive TTL sets one entry.\<close>

lemma board_update:
  assumes "fs \<noteq> []" and "0 < jobTTL s"
    and "\<And>old. job_of_hash jid (hmerge old fs) = f (job_of_hash jid old)"
  shows "board_of t (exec_tx t nid (update_cmds s jid fs) d) = set_entry jid f (board_of t d)"
proof -
  obtain b st where d: "d = (b, st)" by (cases d)
  have "live t (b(jobKey jid \<mapsto> (hmerge (live t b (jobKey jid)) fs, Some (t + expire_ns (jobTTL s))))) (jobKey k)
      = (if k = jid then hmerge (live t b (jobKey jid)) fs else live t b (jobKey k))" for k
    using expire_ns_pos [OF assms(2)] by (auto simp: live_def)
  then show ?thesis
    using assms(1,2) entry_board [of t b st jid]
    by (auto simp: d exec_update set_entry_def shown_def hmerge_nonempty fun_eq_iff assms(3)
        simp del: board_of.simps) (auto simp: shown_def hmerge_nonempty fun_eq_iff assms(3))
qed

lemma board_ack: "board_of t (exec_tx t nid (ack_cmds mid) d) = board_apply (Removed mid) (board_of t d)"
proof (cases d)
  case (Pair b st)
  show ?thesis unfolding Pair exec_ack by (simp add: filter_map o_def)
qed

lemma board_create:
  assumes "0 < jobTTL s"
  shows "board_of t (exec_tx t nid (create_cmds s j) d) = board_apply (Enqueued nid j) (board_of t d)"
proof -
  obtain b st where d: "d = (b, st)" by (cases d)
  define fs where "fs = [(''status'', job_Status j), (''source'', job_Source j), (''url'', job_URL j),
      (''language'', job_Language j), (''createdAt'', job_CreatedAt j)]"
  have split: "exec_tx t nid (create_cmds s j) (b, st) =
      (fst (exec_tx t nid (update_cmds s (job_ID j) fs) (b, st)),
       st @ [\<lparr>x_id = nid, x_values = [(fieldJobID, job_ID j)]\<rparr>])"
    by (simp add: create_cmds_def update_cmds_def fs_def)
  have "job_of_hash (job_ID j) (hmerge old fs) = (job_of_hash (job_ID j) old)\<lparr>job_Status := job_Status j,
      job_Source := job_Source j, job_URL := job_URL j, job_Language := job_Language j,
      job_CreatedAt := job_CreatedAt j\<rparr>" for old
    by (simp add: job_of_hash_def hget_def map_of_hmerge fs_def)
  from board_update [OF _ assms this, of t nid d]
  have "board_of t (exec_tx t nid (update_cmds s (job_ID j) fs) d) = set_entry (job_ID j) (\<lambda>old.
      old\<lparr>job_Status := job_Status j, job_Source := job_Source j, job_URL := job_URL j,
        job_Language := job_Language j, job_CreatedAt := job_CreatedAt j\<rparr>) (board_of t d)"
    by (simp add: fs_def)
  then show ?thesis by (cases "exec_tx t nid (update_cmds s (job_ID j) fs) (b, st)") (simp add: d split set_entry_def)
qed

section \<open>Refinement\<close>

text \<open>The transactions of the service, and the events they implement.\<close>

inductive implements :: "store \<Rightarrow> string \<Rightarrow> redis_cmd list \<Rightarrow> board_event \<Rightarrow> bool" for s nid where
  "implements s nid (create_cmds s j) (Enqueued nid j)"
| "implements s nid (update_cmds s jid processing_fields) (Started jid)"
| "implements s nid (update_cmds s jid (completed_fields body at)) (Succeeded jid body at)"
| "implements s nid (update_cmds s jid (failed_fields msg at)) (Gave_up jid msg at)"
| "implements s nid (ack_cmds mid) (Removed mid)"

lemma implements_durable: "implements s nid cs e \<Longrightarrow> durable e"
  by (induction rule: implements.induct) simp_all

lemma implements_step:
  "implements s nid cs e \<Longrightarrow> 0 < jobTTL s
    \<Longrightarrow> board_of t (exec_tx t nid cs d) = board_apply e (board_of t d)"
proof (induction rule: implements.induct)
  case (2 jid)
  show ?case by (simp, rule board_update [OF _ 2 job_of_merge(1)]) (simp add: processing_fields_def)
next
  case (3 jid body at)
  show ?case by (simp, rule board_update [OF _ 3 job_of_completed]) (simp add: completed_fields_def)
next
  case (4 jid msg at)
  show ?case by (simp, rule board_update [OF _ 4 job_of_merge(2)]) (simp add: failed_fields_def)
qed (simp_all add: board_create board_ack)

text \<open>A sequence of transactions, the identifiers of the messages they add left open.\<close>

definition implement_all :: "store \<Rightarrow> redis_cmd list list \<Rightarrow> board_event list \<Rightarrow> bool" where
  "implement_all s css es \<longleftrightarrow> list_all2 (\<lambda>cs e. \<exists>nid. implements s nid cs e) css es"

lemma replay_refines:
  assumes "replay t css d t' d'" and "0 < jobTTL s" and "\<forall>cs \<in> set css. \<forall>nid. \<exists>e. implements s nid cs e"
  shows "\<exists>es. board_of t' d' = fold board_apply es (board_of t d)
    \<and> implement_all s css (filter durable es)"
  using assms(1,3)
proof (induction rule: replay.induct)
  case (finish t t' d)
  from board_later [OF finish(1), of d] obtain gone
    where "board_of t' d = board_apply (Expired gone) (board_of t d)" by blast
  then show ?case by (intro exI [of _ "[Expired gone]"]) (simp add: implement_all_def)
next
  case (transact t t1 nid d css cs t' d')
  from transact.IH transact.prems obtain es where
    es: "board_of t' d' = fold board_apply es (board_of t1 (exec_tx t1 nid cs d))"
      "implement_all s css (filter durable es)" by auto
  from transact.prems have "\<exists>e. implements s nid cs e" by simp
  then obtain e where e: "implements s nid cs e" ..
  from board_later [OF transact.hyps(1), of d] obtain gone
    where g: "board_of t1 d = board_apply (Expired gone) (board_of t d)" by blast
  have "board_of t' d' = fold board_apply (Expired gone # e # es) (board_of t d)"
    using es(1) g implements_step [OF e assms(2)] by simp
  moreover have "implement_all s (cs # css) (filter durable (Expired gone # e # es))"
    using es(2) e implements_durable [OF e] by (auto simp: implement_all_def)
  ultimately show ?case by blast
qed

lemma implements_only:
  "implements s nid (update_cmds s jid processing_fields) e \<longleftrightarrow> e = Started jid"
  "implements s nid (update_cmds s jid (completed_fields body at)) e \<longleftrightarrow> e = Succeeded jid body at"
  "implements s nid (update_cmds s jid (failed_fields msg at)) e \<longleftrightarrow> e = Gave_up jid msg at"
  "implements s nid (ack_cmds mid) e \<longleftrightarrow> e = Removed mid"
  by (auto simp: implements.simps update_cmds_def create_cmds_def ack_cmds_def processing_fields_def
      completed_fields_def failed_fields_def)

lemma implement_all_simps:
  "implement_all s [] es \<longleftrightarrow> es = []"
  "implement_all s (cs # css) es \<longleftrightarrow> (\<exists>e es' nid. es = e # es' \<and> implements s nid cs e \<and> implement_all s css es')"
  by (auto simp: implement_all_def list_all2_Cons1)

text \<open>The ways \<open>handle\<close> may change the board.\<close>

definition one_life :: "queued_message \<Rightarrow> board_event list \<Rightarrow> bool" where
  "one_life m es \<longleftrightarrow> es = [Removed (MessageID m)]
     \<or> (\<exists>body at. es = [Started (JobID m), Succeeded (JobID m) body at, Removed (MessageID m)])
     \<or> (\<exists>msg at. es = [Started (JobID m), Gave_up (JobID m) msg at, Removed (MessageID m)])"



text \<open>The reference Redis after one accepted URL job.\<close>

definition ref_url_final :: "redis_state world" where
  "ref_url_final = final (run (step_op ref_env) (handleURL ex_server
     (\<lambda>_. Some \<lparr>Scheme = ''http'', Host = ''h'', Path = []\<rparr>) newJobID (ex_request [])) ref_world)"

text \<open>The endpoints refine the board: a request that is answered 202 enqueues one job in
  the state queued, with the source, URL and language it asked for, under the identifier of
  the answer; entries may expire meanwhile.\<close>

lemma endpoint_refines_board:
  fixes E h w
  defines "z \<equiv> run (step_op E) h w" and "jid \<equiv> result (run (step_op E) newJobID w)"
  assumes "redis_server E now db stream next_id" and "0 < jobTTL (srv_store s)"
    and "h = handleUpload s newJobID r \<and> sub = upload_submission s r
      \<or> h = handleURL s up newJobID r \<and> sub = url_submission s r"
    and "hs_status (result z) = 202"
  shows "\<exists>es mid at. board_of (now (ext (final z))) (db (ext (final z)), stream (ext (final z)))
      = fold board_apply es (board_of (now (ext w)) (db (ext w), stream (ext w)))
    \<and> filter durable es = [Enqueued mid (queued_job jid sub at)]"
proof -
  from accepted_run [OF assms(5), of "step_op E" w] assms(6)
  obtain at where t: "txs (ops z) = [create_cmds (srv_store s) (queued_job jid sub at)]"
    and a: "acknowledged (events z)" unfolding z_def jid_def by blast
  let ?j = "queued_job jid sub at"
  from redis_server.run_replay [OF assms(3), of h w] a
  have "replay (now (ext w)) (txs (ops z)) (db (ext w), stream (ext w)) (now (ext (final z)))
      (db (ext (final z)), stream (ext (final z)))" unfolding z_def by simp
  then obtain t1 nid where t1: "now (ext w) \<le> t1" and t2: "t1 \<le> now (ext (final z))"
    and d: "(db (ext (final z)), stream (ext (final z)))
      = exec_tx t1 nid (create_cmds (srv_store s) ?j) (db (ext w), stream (ext w))"
    unfolding t by (auto elim!: replay_ConsE replay_NilE)
  from board_later [OF t1, of "(db (ext w), stream (ext w))"] obtain g1 where
    "board_of t1 (db (ext w), stream (ext w)) = board_apply (Expired g1) (board_of (now (ext w)) (db (ext w), stream (ext w)))"
    by blast
  moreover from board_later [OF t2, of "(db (ext (final z)), stream (ext (final z)))"] obtain g2 where
    "board_of (now (ext (final z))) (db (ext (final z)), stream (ext (final z)))
      = board_apply (Expired g2) (board_of t1 (db (ext (final z)), stream (ext (final z))))" by blast
  ultimately have "board_of (now (ext (final z))) (db (ext (final z)), stream (ext (final z)))
      = fold board_apply [Expired g1, Enqueued nid ?j, Expired g2]
          (board_of (now (ext w)) (db (ext w), stream (ext w)))"
    using board_create [OF assms(4), of t1 nid ?j "(db (ext w), stream (ext w))"] unfolding d by simp
  then show ?thesis
    by (intro exI [of _ "[Expired g1, Enqueued nid ?j, Expired g2]"] exI [of _ nid] exI [of _ at] conjI) simp_all
qed

lemma endpoint_refines_board_witness:
  "\<exists>es mid at. board_of (r_now (ext ref_url_final)) (r_db (ext ref_url_final), r_stream (ext ref_url_final))
      = fold board_apply es (board_of 0 (Map.empty, []))
    \<and> filter durable es = [Enqueued mid (queued_job (result (run (step_op ref_env) newJobID ref_world))
        (url_submission ex_server (ex_request [])) at)]"
proof -
  have "0 < jobTTL (srv_store ex_server)" by (simp add: ex_server_def Hour_def)
  from endpoint_refines_board [OF ref_laws this disjI2 [OF conjI [OF refl refl]] ref_url_accepted]
  show ?thesis by (simp add: ref_url_final_def ref_world_def init_world_def ref_state_def)
qed

end
