(* ===== verification/Board_Machine.thy ===== *)
theory Board_Machine
  imports Job_Board
begin

text \<open>
  The abstract machine of the whole service: the job board and one agent for every
  goroutine. A worker takes a batch of messages and leads each through its stages; a
  client is admitted below the cap of the queue and enqueues one job. The machine knows
  nothing of programs, keys, deadlines or counters.
\<close>

section \<open>Agents\<close>

datatype stage = Fresh | Loaded | Begun | Settled | Dismissed

datatype agent = Worker stage "queued_message list" | Client | Admitted | Served

text \<open>The job an endpoint may enqueue.\<close>

definition new_job :: "job \<Rightarrow> bool" where
  "new_job j \<longleftrightarrow> job_Status j = StatusQueued
     \<and> (job_Source j = SourceUpload \<and> job_URL j = [] \<or> job_Source j = SourceURL \<and> job_URL j \<noteq> [])
     \<and> job_CreatedAt j \<noteq> []"

text \<open>The event an agent tries next, and its state afterwards, whether the event took effect or not.\<close>

inductive attempts :: "agent \<Rightarrow> board_event \<Rightarrow> agent \<Rightarrow> bool" where
  enqueue: "new_job j \<Longrightarrow> attempts Admitted (Enqueued mid j) Served"
| begin_job: "attempts (Worker Loaded (m # ms)) (Started (JobID m)) (Worker Begun (m # ms))"
| succeed: "at \<noteq> [] \<Longrightarrow> attempts (Worker Begun (m # ms)) (Succeeded (JobID m) body at) (Worker Settled (m # ms))"
| give_up: "at \<noteq> [] \<Longrightarrow> attempts (Worker Begun (m # ms)) (Gave_up (JobID m) msg at) (Worker Settled (m # ms))"
| remove: "st = Settled \<or> st = Dismissed
    \<Longrightarrow> attempts (Worker st (m # ms)) (Removed (MessageID m)) (Worker Fresh ms)"

inductive_cases attemptsE: "attempts a e a'"

section \<open>The machine\<close>

text \<open>
  The ledger holds every message there ever was, with its job; \<open>closed_messages\<close> those
  that were on the board at a time when their job was finished: completed, failed or gone.
\<close>

record machine =
  job_board :: board
  agents :: "agent list"
  ledger :: "(string \<times> string) set"
  closed_messages :: "(string \<times> string) set"

definition finished :: "board \<Rightarrow> string \<Rightarrow> bool" where
  "finished b jid \<longleftrightarrow> (case entries b jid of None \<Rightarrow> True
     | Some j \<Rightarrow> job_Status j = StatusCompleted \<or> job_Status j = StatusFailed)"

fun issued :: "board_event \<Rightarrow> (string \<times> string) set" where
  "issued (Enqueued mid j) = {(mid, job_ID j)}"
| "issued e = {}"

fun closes :: "board_event \<Rightarrow> string set" where
  "closes (Succeeded jid body at) = {jid}"
| "closes (Gave_up jid msg at) = {jid}"
| "closes e = {}"

datatype act =
    Does nat board_event
  | Fails nat board_event
  | Picks nat "queued_message list"
  | Checks nat
  | Misreads nat
  | Admits nat
  | Passes "string set"
  | Joins

text \<open>The acts that only an error of Redis explains.\<close>

fun faulty :: "act \<Rightarrow> bool" where
  "faulty (Fails i e) = True"
| "faulty (Misreads i) = True"
| "faulty l = False"

definition closing :: "board \<Rightarrow> string set \<Rightarrow> (string \<times> string) set" where
  "closing b jids = {p \<in> set (messages_of b). snd p \<in> jids}"

definition message_pairs :: "queued_message list \<Rightarrow> (string \<times> string) set" where
  "message_pairs ms = (\<lambda>m. (MessageID m, JobID m)) ` set ms"

inductive acts :: "int \<Rightarrow> machine \<Rightarrow> act \<Rightarrow> machine \<Rightarrow> bool" for cap a where
  does: "i < length (agents a) \<Longrightarrow> attempts (agents a ! i) e x \<Longrightarrow> fst ` issued e \<inter> fst ` ledger a = {}
    \<Longrightarrow> acts cap a (Does i e) (a\<lparr>job_board := board_apply e (job_board a), agents := (agents a)[i := x],
      ledger := ledger a \<union> issued e, closed_messages := closed_messages a \<union> closing (job_board a) (closes e)\<rparr>)"
| fails: "i < length (agents a) \<Longrightarrow> attempts (agents a ! i) e x
    \<Longrightarrow> acts cap a (Fails i e) (a\<lparr>agents := (agents a)[i := x]\<rparr>)"
| picks: "i < length (agents a) \<Longrightarrow> agents a ! i = Worker Fresh []
    \<Longrightarrow> message_pairs ms \<subseteq> set (messages_of (job_board a))
    \<Longrightarrow> acts cap a (Picks i ms) (a\<lparr>agents := (agents a)[i := Worker Fresh ms]\<rparr>)"
| checks: "i < length (agents a) \<Longrightarrow> agents a ! i = Worker Fresh (m # ms)
    \<Longrightarrow> fin \<longleftrightarrow> finished (job_board a) (JobID m)
    \<Longrightarrow> acts cap a (Checks i) (a\<lparr>agents := (agents a)[i := Worker (if fin then Dismissed else Loaded) (m # ms)],
      closed_messages := closed_messages a \<union> closing (job_board a) (if fin then {JobID m} else {})\<rparr>)"
| misreads: "i < length (agents a) \<Longrightarrow> agents a ! i = Worker Fresh (m # ms)
    \<Longrightarrow> acts cap a (Misreads i) (a\<lparr>agents := (agents a)[i := Worker Dismissed (m # ms)]\<rparr>)"
| admits: "i < length (agents a) \<Longrightarrow> agents a ! i = Client \<Longrightarrow> int (length (messages_of (job_board a))) < cap
    \<Longrightarrow> acts cap a (Admits i) (a\<lparr>agents := (agents a)[i := Admitted]\<rparr>)"
| passes: "acts cap a (Passes gone) (a\<lparr>job_board := board_apply (Expired gone) (job_board a)\<rparr>)"
| joins: "acts cap a Joins (a\<lparr>agents := agents a @ [Client]\<rparr>)"

inductive history :: "int \<Rightarrow> machine \<Rightarrow> act list \<Rightarrow> machine \<Rightarrow> bool" for cap a where
  nothing [intro]: "history cap a [] a"
| more: "history cap a ls b \<Longrightarrow> acts cap b l c \<Longrightarrow> history cap a (ls @ [l]) c"

lemma history_append: "history cap b ls' c \<Longrightarrow> history cap a ls b \<Longrightarrow> history cap a (ls @ ls') c"
proof (induction rule: history.induct)
  case (more ls' b' l c)
  from history.more [OF more.IH [OF more.prems] more.hyps(2)] show ?case by simp
qed simp

lemma history_one: "acts cap a l b \<Longrightarrow> history cap a [l] b"
  using history.more [OF history.nothing] by fastforce

text \<open>The machine at the start of the service: a board and \<open>n\<close> workers.\<close>

definition machine_start :: "board \<Rightarrow> nat \<Rightarrow> machine" where
  "machine_start b n = \<lparr>job_board = b, agents = replicate n (Worker Fresh []),
     ledger = set (messages_of b), closed_messages = {}\<rparr>"

section \<open>Invariants of the machine\<close>

text \<open>
  Every message of the board and of a batch is in the ledger, under one job, and the board
  lists no identifier twice.
\<close>

fun batch :: "agent \<Rightarrow> queued_message list" where
  "batch (Worker st ms) = ms"
| "batch a = []"

definition ledger_sound :: "machine \<Rightarrow> bool" where
  "ledger_sound a \<longleftrightarrow> set (messages_of (job_board a)) \<subseteq> ledger a
     \<and> (\<forall>ag \<in> set (agents a). message_pairs (batch ag) \<subseteq> ledger a)
     \<and> inj_on fst (ledger a)"

lemma attempts_batch: "attempts x e y \<Longrightarrow> message_pairs (batch y) \<subseteq> message_pairs (batch x)"
  by (auto elim!: attemptsE simp: message_pairs_def)

lemma issued_messages: "set (messages_of (board_apply e b)) \<subseteq> set (messages_of b) \<union> issued e"
  by (cases e) (auto simp: set_entry_def)

lemma in_update_cases: "x \<in> set (xs[i := y]) \<Longrightarrow> x = y \<or> x \<in> set xs"
  using set_update_subset_insert [of xs i y] by blast

lemma in_update: "\<forall>x \<in> set xs. P x \<Longrightarrow> P y \<Longrightarrow> \<forall>x \<in> set (xs[i := y]). P x"
  using set_update_subset_insert [of xs i y] by blast

lemma acts_ledger: "acts cap a l b \<Longrightarrow> ledger_sound a \<Longrightarrow> ledger_sound b"
proof (induction rule: acts.induct)
  case (does i e x)
  from does.prems does.hyps(1) have "message_pairs (batch (agents a ! i)) \<subseteq> ledger a"
    by (simp add: ledger_sound_def)
  with attempts_batch [OF does.hyps(2)] have x: "message_pairs (batch x) \<subseteq> ledger a \<union> issued e" by blast
  from does.prems have all: "\<forall>ag \<in> set (agents a). message_pairs (batch ag) \<subseteq> ledger a \<union> issued e"
    by (auto simp: ledger_sound_def)
  have "inj_on fst (issued e)" by (cases e) simp_all
  with does.prems does.hyps(3) have "inj_on fst (ledger a \<union> issued e)"
    by (simp add: ledger_sound_def inj_on_Un) blast
  moreover have "set (messages_of (board_apply e (job_board a))) \<subseteq> ledger a \<union> issued e"
    using issued_messages [of e "job_board a"] does.prems by (auto simp: ledger_sound_def)
  ultimately show ?case using in_update [OF all x, of i] by (simp add: ledger_sound_def)
next
  case (fails i e x)
  from fails.prems fails.hyps(1) have "message_pairs (batch (agents a ! i)) \<subseteq> ledger a"
    by (simp add: ledger_sound_def)
  with attempts_batch [OF fails.hyps(2)] have "message_pairs (batch x) \<subseteq> ledger a" by blast
  with fails.prems show ?case by (auto simp: ledger_sound_def dest!: in_update_cases)
next
  case (picks i ms)
  then show ?case by (auto simp: ledger_sound_def dest!: in_update_cases)
next
  case (checks i m ms fin)
  then have "message_pairs (m # ms) \<subseteq> ledger a" unfolding ledger_sound_def by (metis batch.simps(1) nth_mem)
  with checks.prems show ?case by (auto simp: ledger_sound_def dest!: in_update_cases)
next
  case (misreads i m ms)
  then have "message_pairs (m # ms) \<subseteq> ledger a" unfolding ledger_sound_def by (metis batch.simps(1) nth_mem)
  with misreads.prems show ?case by (auto simp: ledger_sound_def dest!: in_update_cases)
next
  case (admits i)
  then show ?case by (auto simp: ledger_sound_def message_pairs_def dest!: in_update_cases)
qed (auto simp: ledger_sound_def message_pairs_def)

text \<open>
  While Redis answers, a message that a worker is about to remove is closed, or no longer on
  the board, and every message of the ledger that is not on the board is closed.
\<close>

fun backed :: "(string \<times> string) set \<Rightarrow> (string \<times> string) set \<Rightarrow> agent \<Rightarrow> bool" where
  "backed M C (Worker st (m # ms)) \<longleftrightarrow>
     ((st = Settled \<or> st = Dismissed) \<and> (MessageID m, JobID m) \<in> M \<longrightarrow> (MessageID m, JobID m) \<in> C)"
| "backed M C a \<longleftrightarrow> True"

definition custody :: "machine \<Rightarrow> bool" where
  "custody a \<longleftrightarrow> (\<forall>ag \<in> set (agents a). backed (set (messages_of (job_board a))) (closed_messages a) ag)
     \<and> ledger a \<subseteq> set (messages_of (job_board a)) \<union> closed_messages a"

lemma backed_step:
  "backed M C ag \<Longrightarrow> message_pairs (batch ag) \<subseteq> L \<Longrightarrow> M' \<inter> L \<subseteq> M \<Longrightarrow> C \<subseteq> C' \<Longrightarrow> backed M' C' ag"
  by (cases "(M, C, ag)" rule: backed.cases) (auto simp: message_pairs_def)

lemma backed_Fresh [simp]: "backed M C (Worker Fresh ms)"
  by (cases ms) simp_all

text \<open>An event that an agent tries keeps it backed.\<close>

lemma attempts_backed:
  assumes "attempts x e y" and "backed M C x" and "message_pairs (batch x) \<subseteq> L"
    and "set (messages_of (board_apply e b)) \<inter> L \<subseteq> M" and "M = set (messages_of b)"
  shows "backed (set (messages_of (board_apply e b))) (C \<union> closing b (closes e)) y"
  using assms by cases (auto simp: closing_def set_entry_def message_pairs_def)

text \<open>An event keeps the messages, or removes one that is closed.\<close>

lemma removed_closed:
  assumes "attempts x e y" and "backed (set (messages_of b)) C x" and "message_pairs (batch x) \<subseteq> L"
    and "inj_on fst L" and "q \<in> L" and "q \<in> set (messages_of b)"
  shows "q \<in> set (messages_of (board_apply e b)) \<union> C"
  using assms(1)
proof cases
  case (remove st m ms)
  show ?thesis
  proof (cases "fst q = MessageID m")
    case True
    have "(MessageID m, JobID m) \<in> L" using assms(3) remove(1) by (auto simp: message_pairs_def)
    from inj_onD [OF assms(4) _ assms(5) this] True have "q = (MessageID m, JobID m)" by simp
    with remove assms(2,6) show ?thesis by auto
  qed (use remove assms(6) in auto)
qed (use assms(6) in \<open>auto simp: set_entry_def\<close>)

lemma acts_custody: "acts cap a l b \<Longrightarrow> \<not> faulty l \<Longrightarrow> ledger_sound a \<Longrightarrow> custody a \<Longrightarrow> custody b"
proof (induction rule: acts.induct)
  case (does i e x)
  let ?M = "set (messages_of (job_board a))" and ?M' = "set (messages_of (board_apply e (job_board a)))"
  let ?C = "closed_messages a \<union> closing (job_board a) (closes e)"
  have keep: "?M' \<inter> ledger a \<subseteq> ?M"
    using issued_messages [of e "job_board a"] does.hyps(3) by (auto dest!: equalityD1)
  from does.prems(3) does.hyps(1) have bi: "backed ?M (closed_messages a) (agents a ! i)" by (simp add: custody_def)
  from does.prems(2) does.hyps(1) have ci: "message_pairs (batch (agents a ! i)) \<subseteq> ledger a" "inj_on fst (ledger a)"
    by (simp_all add: ledger_sound_def)
  have all: "\<forall>ag \<in> set (agents a). backed ?M' ?C ag"
    using does.prems(2,3) backed_step [OF _ _ keep Un_upper1] by (auto simp: custody_def ledger_sound_def)
  have "q \<in> ?M' \<union> ?C" if "q \<in> ledger a \<union> issued e" for q
  proof (cases "q \<in> issued e")
    case True
    then show ?thesis by (cases e) auto
  next
    case False
    with that have l: "q \<in> ledger a" by simp
    with does.prems(3) have "q \<in> ?M \<or> q \<in> closed_messages a" by (auto simp: custody_def)
    then show ?thesis using removed_closed [OF does.hyps(2) bi ci l] by blast
  qed
  with in_update [OF all attempts_backed [OF does.hyps(2) bi ci(1) keep refl], of i] show ?case
    by (simp add: custody_def subset_iff)
next
  case (picks i ms)
  then show ?case by (auto simp: custody_def dest!: in_update_cases)
next
  case (checks i m ms fin)
  let ?M = "set (messages_of (job_board a))"
  let ?C = "closed_messages a \<union> closing (job_board a) (if fin then {JobID m} else {})"
  have all: "\<forall>ag \<in> set (agents a). backed ?M ?C ag"
    using checks.prems(3) backed_step [OF _ subset_refl Int_lower1 Un_upper1] by (auto simp: custody_def)
  have "backed ?M ?C (Worker (if fin then Dismissed else Loaded) (m # ms))" by (simp add: closing_def)
  from in_update [OF all this, of i] checks.prems(3) show ?case by (auto simp: custody_def)
next
  case (admits i)
  then show ?case by (auto simp: custody_def dest!: in_update_cases)
qed (auto simp: custody_def)

text \<open>The ledger only grows.\<close>

lemma history_grows: "history cap a ls b \<Longrightarrow> ledger a \<subseteq> ledger b"
proof (induction rule: history.induct)
  case (more ls b l c)
  from more.hyps(2) have "ledger b \<subseteq> ledger c" by (cases rule: acts.cases) auto
  with more.IH show ?case by blast
qed simp

lemma start_sound: "distinct (map fst (messages_of b)) \<Longrightarrow> ledger_sound (machine_start b n)"
  by (auto simp: ledger_sound_def machine_start_def message_pairs_def distinct_map)

lemma start_custody: "custody (machine_start b n)"
  by (auto simp: custody_def machine_start_def)

lemma history_ledger: "history cap a ls b \<Longrightarrow> ledger_sound a \<Longrightarrow> ledger_sound b"
  by (induction rule: history.induct) (auto dest: acts_ledger)

lemma history_custody:
  "history cap a ls b \<Longrightarrow> ledger_sound a \<Longrightarrow> custody a \<Longrightarrow> \<forall>l \<in> set ls. \<not> faulty l \<Longrightarrow> custody b"
  by (induction rule: history.induct) (auto dest: acts_custody history_ledger)

section \<open>The length of the queue\<close>

text \<open>
  The messages of the board and the clients that were admitted and have not enqueued yet: an
  act raises their number by admission only, and then below the cap.
\<close>

definition waiting :: "machine \<Rightarrow> nat" where
  "waiting a = length (filter (\<lambda>x. x = Admitted) (agents a))"

definition load :: "machine \<Rightarrow> int" where
  "load a = int (length (messages_of (job_board a))) + int (waiting a)"

lemma attempts_load: "attempts x e y
    \<Longrightarrow> length (messages_of (board_apply e b)) + (if y = Admitted then 1 else 0)
      \<le> length (messages_of b) + (if x = Admitted then 1 else 0)"
  by (erule attemptsE) (simp_all add: set_entry_def)

lemma waiting_update:
  assumes "i < length (agents a)"
  shows "length (filter (\<lambda>x. x = Admitted) ((agents a)[i := y])) + (if agents a ! i = Admitted then 1 else 0)
    = waiting a + (if y = Admitted then 1 else 0)"
  using length_filter_update [OF assms, of "\<lambda>x. x = Admitted" y] by (simp add: waiting_def)

lemma attempts_waiting: "attempts x e y \<Longrightarrow> y \<noteq> Admitted"
  by (auto elim: attemptsE)

lemma acts_load: "acts cap a l b \<Longrightarrow> load b \<le> max (load a) (cap - 1 + int (waiting b))"
proof (induction rule: acts.induct)
  case (does i e x)
  from attempts_load [OF does.hyps(2), of "job_board a"] waiting_update [OF does.hyps(1), of x]
  show ?case by (simp add: load_def) (simp add: waiting_def)
next
  case (fails i e x)
  from waiting_update [OF fails.hyps(1), of x] attempts_waiting [OF fails.hyps(2)]
  show ?case by (simp add: load_def) (simp add: waiting_def split: if_splits)
next
  case (picks i ms)
  from waiting_update [OF picks.hyps(1), of "Worker Fresh ms"] picks.hyps(2) show ?case
    by (simp add: load_def) (simp add: waiting_def)
next
  case (checks i m ms fin)
  from waiting_update [OF checks.hyps(1), of "Worker Dismissed (m # ms)"] checks.hyps(2)
    waiting_update [OF checks.hyps(1), of "Worker Loaded (m # ms)"]
  show ?case by (cases fin) (simp_all add: load_def waiting_def)
next
  case (misreads i m ms)
  from waiting_update [OF misreads.hyps(1), of "Worker Dismissed (m # ms)"] misreads.hyps(2)
  show ?case by (simp add: load_def) (simp add: waiting_def)
next
  case (admits i)
  then show ?case by (simp add: load_def)
qed (simp_all add: load_def waiting_def)

section \<open>Well-formed boards\<close>

text \<open>
  A job shows its own identifier and one of the four states, and a terminal state comes
  with its time.
\<close>

definition entry_ok :: "string \<Rightarrow> job \<Rightarrow> bool" where
  "entry_ok jid j \<longleftrightarrow> job_ID j = jid
     \<and> job_Status j \<in> {StatusQueued, StatusProcessing, StatusCompleted, StatusFailed}
     \<and> (job_Status j \<in> {StatusCompleted, StatusFailed} \<longrightarrow> job_CompletedAt j \<noteq> [])"

definition board_ok :: "board \<Rightarrow> bool" where
  "board_ok b \<longleftrightarrow> (\<forall>jid j. entries b jid = Some j \<longrightarrow> entry_ok jid j)"

lemma set_entry_ok: "board_ok b \<Longrightarrow> entry_ok jid (f (entry b jid)) \<Longrightarrow> board_ok (set_entry jid f b)"
  by (auto simp: board_ok_def set_entry_def)

lemma entry_ID: "board_ok b \<Longrightarrow> job_ID (entry b jid) = jid"
  by (auto simp: entry_def board_ok_def entry_ok_def split: option.split)

lemma event_ok: "attempts x e y \<Longrightarrow> board_ok b \<Longrightarrow> board_ok (board_apply e b)"
proof (induction rule: attempts.induct)
  case (enqueue j mid)
  from enqueue(2) have "board_ok (set_entry (job_ID j) (\<lambda>old. old\<lparr>job_Status := job_Status j,
      job_Source := job_Source j, job_URL := job_URL j, job_Language := job_Language j,
      job_CreatedAt := job_CreatedAt j\<rparr>) b)"
    by (rule set_entry_ok) (use enqueue in \<open>simp add: entry_ok_def entry_ID new_job_def status_defs\<close>)
  then show ?case by (simp add: board_ok_def)
next
  case (remove st m ms)
  then show ?case by (simp add: board_ok_def)
qed (auto intro!: set_entry_ok simp: entry_ok_def entry_ID status_defs)

lemma acts_ok: "acts cap a l b \<Longrightarrow> board_ok (job_board a) \<Longrightarrow> board_ok (job_board b)"
  by (induction rule: acts.induct) (auto simp: event_ok, simp add: board_ok_def)

lemma history_ok: "history cap a ls b \<Longrightarrow> board_ok (job_board a) \<Longrightarrow> board_ok (job_board b)"
  by (induction rule: history.induct) (auto dest: acts_ok)

end
