(* ===== verification/Conformance.thy ===== *)
theory Conformance
  imports Board_Machine System
begin

text \<open>
  The programs of the service follow the agents of the board machine: every operation of a
  goroutine is a move its agent may make, whatever the replies.
\<close>

section \<open>Moves\<close>

text \<open>The reply to the read of a job makes \<open>handle\<close> drop the message.\<close>

definition dismissing :: "string \<Rightarrow> reply \<Rightarrow> bool" where
  "dismissing jid r \<longleftrightarrow> (case as_hashE r of Inl _ \<Rightarrow> True
     | Inr vals \<Rightarrow> vals = [] \<or> job_Status (job_of_hash jid vals) = StatusCompleted
         \<or> job_Status (job_of_hash jid vals) = StatusFailed)"

text \<open>
  Every operation but a transaction may leave the agent as it is; a read may move it on, by
  the reply. A transaction is a try of the event it implements.
\<close>

inductive moves :: "store \<Rightarrow> agent \<Rightarrow> op \<Rightarrow> reply \<Rightarrow> agent \<Rightarrow> bool" for s where
  quiet: "tx_of o' = None \<Longrightarrow> moves s a o' r a"
| look: "moves s (Worker Fresh (m # ms)) (OHGetAll (jobKey (JobID m))) r
    (Worker (if dismissing (JobID m) r then Dismissed else Loaded) (m # ms))"
| fetch: "moves s (Worker Fresh []) (OXReadGroup g c streamKey n bl) r
    (Worker Fresh (case as_streamsE r of Inl _ \<Rightarrow> [] | Inr res \<Rightarrow> toMessages res))"
| claim: "moves s (Worker Fresh []) (OXAutoClaim streamKey g c idle start n) r
    (Worker Fresh (case as_messagesE r of Inl _ \<Rightarrow> [] | Inr msgs \<Rightarrow> toXMessages msgs))"
| admit: "as_intE r = Inr n \<Longrightarrow> n < queueSize s \<Longrightarrow> moves s Client (OXLen streamKey) r Admitted"
| attempt: "(\<And>nid. \<exists>e. implements s nid cs e \<and> attempts a e x) \<Longrightarrow> moves s a (OTx cs) r x"

primrec conforms :: "store \<Rightarrow> agent \<Rightarrow> 'a prog \<Rightarrow> ('a \<Rightarrow> agent \<Rightarrow> bool) \<Rightarrow> bool" where
  "conforms s a (Ret x) Q \<longleftrightarrow> Q x a"
| "conforms s a (Op o' k) Q \<longleftrightarrow> (\<forall>r. \<exists>x. moves s a o' r x \<and> conforms s x (k r) Q)"

lemma conforms_bind:
  "conforms s a p (\<lambda>x y. conforms s y (f x) Q) \<Longrightarrow> conforms s a (bind p f) Q"
proof (induction p arbitrary: a)
  case (Op o' k)
  have "\<exists>x. moves s a o' r x \<and> conforms s x (bind (k r) f) Q" for r
    using Op.prems Op.IH [of "k r"] by (auto 0 4)
  then show ?case by simp
qed simp

lemma conforms_mono: "conforms s a p Q \<Longrightarrow> (\<And>x y. Q x y \<Longrightarrow> R x y) \<Longrightarrow> conforms s a p R"
proof (induction p arbitrary: a)
  case (Op o' k)
  have "\<exists>x. moves s a o' r x \<and> conforms s x (k r) R" for r
    using Op.prems Op.IH [of "k r"] by (auto 0 4)
  then show ?case by simp
qed simp

abbreviation stays :: "store \<Rightarrow> agent \<Rightarrow> 'a prog \<Rightarrow> bool" where
  "stays s a p \<equiv> conforms s a p (\<lambda>_ y. y = a)"

definition no_tx :: "op \<Rightarrow> bool" where "no_tx o' \<longleftrightarrow> tx_of o' = None"

lemma stays_only: "only no_tx p \<Longrightarrow> stays s a p"
proof (induction p)
  case (Op o' k)
  then have "moves s a o' r a \<and> stays s a (k r)" for r by (auto simp: no_tx_def intro: moves.quiet)
  then show ?case by auto
qed simp

lemma conforms_move:
  "(\<And>r. moves s a o' r (x r)) \<Longrightarrow> (\<And>r. conforms s (x r) (k r) Q) \<Longrightarrow> conforms s a (Op o' k) Q"
  by auto

lemma conforms_quiet: "tx_of o' = None \<Longrightarrow> (\<And>r. conforms s a (k r) Q) \<Longrightarrow> conforms s a (Op o' k) Q"
  by (auto intro: moves.quiet)

text \<open>A part that leaves the agent alone, and what follows.\<close>

lemma stays_then: "only no_tx p \<Longrightarrow> (\<And>x. conforms s a (f x) Q) \<Longrightarrow> conforms s a (bind p f) Q"
  by (rule conforms_bind, rule conforms_mono [OF stays_only]) auto

lemma no_tx_parts [safe_ops]:
  "only no_tx (fetchAudio up p jid j)" "only no_tx (transcribeWithRetry p f d l)" "only no_tx nowRFC3339"
  "only no_tx newJobID" "only no_tx (newQueuedJob jid src u l)" "only no_tx (Get jid)"
proof -
  have fetch: "fetch_op o' \<Longrightarrow> no_tx o'" and transcribe: "transcribe_op o' \<Longrightarrow> no_tx o'" for o'
    by (cases o'; simp add: no_tx_def)+
  show "only no_tx (fetchAudio up p jid j)"
    by (rule only_mono [OF only_fetchAudio]) (erule fetch)
  show "only no_tx (transcribeWithRetry p f d l)"
    by (rule only_mono [OF only_transcribeWithRetry]) (erule transcribe)
qed (simp_all add: nowRFC3339_def newJobID_def newQueuedJob_def now_rfc3339_def only_store no_tx_def split: sum.split)

section \<open>The worker\<close>

lemma try_event:
  assumes "\<And>nid. \<exists>e. implements s nid cs e \<and> attempts a e x" and "\<And>r. conforms s x (k r) Q"
  shows "conforms s a (Op (OTx cs) k) Q"
  using assms(2) moves.attempt [OF assms(1)] by auto

declare conforms.simps(2) [simp del]

lemma conforms_update:
  assumes "\<And>nid. implements s nid (update_cmds s jid fs) e" and "attempts a e x"
  shows "conforms s a (update_job s jid fs) (\<lambda>_ y. y = x)"
  unfolding update_job_def using assms by (intro try_event) (auto split: option.split)

lemma conforms_ack:
  "st = Settled \<or> st = Dismissed
    \<Longrightarrow> conforms s (Worker st (m # ms)) (ack m) (\<lambda>_ y. y = Worker Fresh ms)"
  unfolding ack_def Ack_def
  by (intro conforms_bind try_event)
    (auto intro: implements.intros attempts.remove split: option.split)

lemma conforms_fail:
  "pool_store p = s \<Longrightarrow> conforms s (Worker Begun (m # ms)) (fail p m e) (\<lambda>_ y. y = Worker Fresh ms)"
  unfolding fail_def nowRFC3339_def SetFailed_def
  by (auto simp: rfc3339_nonempty
      intro!: conforms_quiet conforms_bind conforms_mono [OF conforms_update] conforms_ack
      intro: implements.intros attempts.give_up)

lemma conforms_result:
  "pool_store p = s
    \<Longrightarrow> conforms s (Worker Begun (m # ms)) (handle_result p m d res) (\<lambda>_ y. y = Worker Fresh ms)"
  unfolding handle_result_def nowRFC3339_def SetCompleted_def
  by (auto simp: rfc3339_nonempty conforms_fail split: sum.split
      intro!: conforms_quiet conforms_bind conforms_mono [OF conforms_update] conforms_ack
      intro: implements.intros attempts.succeed)

lemma conforms_job:
  assumes "pool_store p = s"
  shows "conforms s (Worker Loaded (m # ms)) (handle_job up p m j) (\<lambda>_ y. y = Worker Fresh ms)"
  unfolding handle_job_def SetProcessing_def Let_def
proof (rule conforms_bind, rule conforms_mono)
  show "conforms s (Worker Loaded (m # ms)) (update_job (pool_store p) (JobID m) processing_fields)
      (\<lambda>_ y. y = Worker Begun (m # ms))"
    unfolding assms by (rule conforms_update) (auto intro: implements.intros attempts.begin_job)
qed (auto simp: assms conforms_fail conforms_result no_tx_parts intro!: stays_then split: sum.split)

lemma conforms_body:
  assumes "pool_store p = s"
  shows "conforms s (Worker Fresh (m # ms)) (handle_body up p m) (\<lambda>_ y. y = Worker Fresh ms)"
proof -
  have body: "handle_body up p m = Op (OHGetAll (jobKey (JobID m))) (\<lambda>r.
      case as_hashE r of Inl e \<Rightarrow> ack m | Inr vals \<Rightarrow> if length vals = 0 then ack m
        else if job_Status (job_of_hash (JobID m) vals) = StatusCompleted
          \<or> job_Status (job_of_hash (JobID m) vals) = StatusFailed then ack m
        else handle_job up p m (job_of_hash (JobID m) vals))"
    by (auto simp: handle_body_def Get_def fun_eq_iff split: sum.split)
  show ?thesis unfolding body
    by (rule conforms_move, rule moves.look)
      (auto simp: dismissing_def conforms_ack conforms_job [OF assms] split: sum.split)
qed

lemma conforms_handle:
  "pool_store p = s
    \<Longrightarrow> conforms s (Worker Fresh (m # ms)) (handle up p m) (\<lambda>_ y. y = Worker Fresh ms)"
  unfolding handle_def exec1_def
  by (intro conforms_quiet conforms_bind conforms_mono [OF conforms_body]) (auto intro!: conforms_quiet)

lemma conforms_handle_all:
  "pool_store p = s \<Longrightarrow> conforms s (Worker Fresh ms) (handle_all up p ms) (\<lambda>_ y. y = Worker Fresh [])"
  by (induction ms) (auto intro!: conforms_bind conforms_mono [OF conforms_handle])

lemma conforms_Read:
  "conforms s (Worker Fresh []) (Read c n bl)
     (\<lambda>res y. y = Worker Fresh (case res of Inl _ \<Rightarrow> [] | Inr ms \<Rightarrow> ms))"
  unfolding Read_def by (rule conforms_move, rule moves.fetch) (auto split: sum.split)

lemma conforms_Claim:
  "conforms s (Worker Fresh []) (Claim c idle n)
     (\<lambda>res y. y = Worker Fresh (case res of Inl _ \<Rightarrow> [] | Inr ms \<Rightarrow> ms))"
  unfolding Claim_def by (rule conforms_move, rule moves.claim) (auto split: sum.split)

text \<open>A turn of a goroutine brings the worker back to an empty batch.\<close>

lemma conforms_iteration:
  assumes "pool_store p = s"
  shows "conforms s (Worker Fresh []) (goroutine_iter up p g closed) (\<lambda>_ y. y = Worker Fresh [])"
proof (cases g)
  case (Consumer c)
  have "conforms s (Worker Fresh []) (bind (Read c 1 readBlock) (\<lambda>res.
      case res of Inl err \<Rightarrow> Op OCtxErr (\<lambda>e'. if as_err e' \<noteq> None then Ret Return
          else bind (sleep retryBaseDelay) (\<lambda>_. Ret (Continue False)))
      | Inr msgs \<Rightarrow> bind (handle_all up p msgs) (\<lambda>_. Ret (Continue False)))) (\<lambda>_ y. y = Worker Fresh [])"
    by (rule conforms_bind, rule conforms_mono [OF conforms_Read])
      (auto split: sum.split
        intro!: conforms_quiet conforms_bind conforms_mono [OF conforms_handle_all [OF assms]])
  then show ?thesis
    by (auto simp: Consumer goroutine_iter_def consume_iter_def simp del: not_None_eq intro!: conforms_quiet)
next
  case (Claimer c)
  have "conforms s (Worker Fresh []) (bind (Claim c claimMinIdle 10) (\<lambda>res.
      case res of Inl err \<Rightarrow> Ret (Continue False)
      | Inr msgs \<Rightarrow> bind (handle_all up p msgs) (\<lambda>_. Ret (Continue False)))) (\<lambda>_ y. y = Worker Fresh [])"
    by (rule conforms_bind, rule conforms_mono [OF conforms_Claim])
      (auto split: sum.split intro!: conforms_bind conforms_mono [OF conforms_handle_all [OF assms]])
  then show ?thesis
    by (auto simp: Claimer goroutine_iter_def claim_iter_def intro!: conforms_quiet)
qed

section \<open>The endpoints\<close>

lemma conforms_enqueue:
  assumes "new_job j"
  shows "conforms s Client (CreateAndEnqueue s j) (\<lambda>_ y. y \<noteq> Admitted)"
proof -
  let ?rest = "\<lambda>r. case as_intE r of Inl e \<Rightarrow> Ret (Some (ErrWrap ''queue length: '' e))
    | Inr n \<Rightarrow> if n \<ge> queueSize s then Ret (Some ErrQueueFull)
        else Op (OTx (create_cmds s j)) (\<lambda>r'. case as_err r' of
          Some e \<Rightarrow> Ret (Some (ErrWrap ''enqueue job: '' e)) | None \<Rightarrow> Ret None)"
  have "\<exists>x. moves s Client (OXLen streamKey) r x \<and> conforms s x (?rest r) (\<lambda>_ y. y \<noteq> Admitted)" for r
  proof (cases "\<exists>n. as_intE r = Inr n \<and> n < queueSize s")
    case True
    then obtain n where n: "as_intE r = Inr n" "n < queueSize s" by blast
    have "conforms s Admitted (Op (OTx (create_cmds s j)) (\<lambda>r'. case as_err r' of
          Some e \<Rightarrow> Ret (Some (ErrWrap ''enqueue job: '' e)) | None \<Rightarrow> Ret None)) (\<lambda>_ y. y \<noteq> Admitted)"
      by (rule try_event [where x = Served])
        (auto intro: implements.intros attempts.enqueue [OF assms] split: option.split)
    with n moves.admit [OF n] show ?thesis by (intro exI [of _ Admitted]) simp
  next
    case False
    then have "conforms s Client (?rest r) (\<lambda>_ y. y \<noteq> Admitted)" by (auto split: sum.split)
    then show ?thesis by (intro exI [of _ Client]) (simp add: moves.quiet)
  qed
  then show ?thesis by (simp add: CreateAndEnqueue_def conforms.simps(2))
qed

lemma conforms_accept:
  assumes "src = SourceUpload \<and> u = [] \<or> src = SourceURL \<and> u \<noteq> []"
    and "\<And>res a. a \<noteq> Admitted \<Longrightarrow> conforms s a (f res) (\<lambda>_ y. y \<noteq> Admitted)"
  shows "conforms s Client (bind (newQueuedJob jid src u l) (\<lambda>j. bind (CreateAndEnqueue s j) f)) (\<lambda>_ y. y \<noteq> Admitted)"
proof -
  have "new_job (zero_job\<lparr>job_ID := jid, job_Status := StatusQueued, job_Source := src, job_URL := u,
      job_Language := l, job_CreatedAt := rfc3339 t\<rparr>)" for t
    using assms(1) by (simp add: new_job_def rfc3339_nonempty)
  then show ?thesis unfolding newQueuedJob_def now_rfc3339_def
    by (auto intro!: conforms_quiet conforms_bind conforms_mono [OF conforms_enqueue] assms(2)
       )
qed

lemma conforms_Handler:
  "conforms (srv_store s) Client (Handler s up newJobID r) (\<lambda>_ y. y \<noteq> Admitted)"
proof -
  have any: "conforms st Client p (\<lambda>_ y. y \<noteq> Admitted)" if "only no_tx p" for st and p :: "http_response prog"
    using stays_only [OF that] by (rule conforms_mono) simp
  have gj: "only no_tx (handleGetJob jid r)" for jid
    unfolding handleGetJob_def by (auto intro!: only_bind no_tx_parts split: sum.split)
  have he: "only no_tx (handleHealth s r)"
    by (auto simp: handleHealth_def QueueLen_def Ping_def no_tx_def Let_def)
  have up: "conforms (srv_store s) Client (handleUpload s newJobID r) (\<lambda>_ y. y \<noteq> Admitted)"
    unfolding handleUpload_def
    by (auto simp: no_tx_parts split: sum.split option.split
        intro!: stays_then [where p = newJobID] conforms_quiet conforms_accept)
  have ur: "conforms (srv_store s) Client (handleURL s up newJobID r) (\<lambda>_ y. y \<noteq> Admitted)"
    unfolding handleURL_def Let_def
    by (auto simp: no_tx_parts split: sum.split option.split
        intro!: stays_then [where p = newJobID] conforms_quiet conforms_accept)
  have "conforms (srv_store s) Client (dispatch s up newJobID r) (\<lambda>_ y. y \<noteq> Admitted)"
    unfolding dispatch_def auth_def Let_def
    by (simp add: up ur any [OF gj] any [OF he] split: routed.split endpoint.split)
  then show ?thesis unfolding Handler_def by (intro conforms_bind) (simp add: conforms.simps(1))
qed

section \<open>Threads\<close>

fun is_worker :: "agent \<Rightarrow> bool" where
  "is_worker (Worker st ms) = True"
| "is_worker a = False"

lemma moves_worker: "moves s a o' r x \<Longrightarrow> is_worker a \<Longrightarrow> is_worker x"
proof (induction rule: moves.induct)
  case (attempt cs a x r)
  then obtain e where "attempts a e x" by blast
  with attempt.prems show ?case by (auto elim: attemptsE)
qed simp_all

text \<open>A request between the look at the length of the queue and its transaction has an operation to do.\<close>

fun serving :: "thread \<Rightarrow> bool" where
  "serving (Request (Op o' k)) = True"
| "serving t = False"

fun thread_conf :: "store \<Rightarrow> agent \<Rightarrow> thread \<Rightarrow> bool" where
  "thread_conf s a (Loop g p) \<longleftrightarrow> is_worker a \<and> conforms s a p (\<lambda>_ y. y = Worker Fresh [])"
| "thread_conf s a (Request p) \<longleftrightarrow> conforms s a p (\<lambda>_ y. y \<noteq> Admitted)"
| "thread_conf s a Done \<longleftrightarrow> a \<noteq> Admitted"

lemma conf_iteration: "pool_store (dep_pool d) = s \<Longrightarrow> thread_conf s (Worker Fresh []) (iteration d g closed)"
  by (simp add: iteration_def conforms_iteration)

lemma conf_request: "thread_conf (srv_store (dep_server d)) Client (request d r)"
  by (simp add: request_def conforms_Handler)

lemma conf_admitted: "thread_conf s Admitted t \<Longrightarrow> serving t"
  by (cases t rule: serving.cases) simp_all

lemma conf_settle:
  "pool_store (dep_pool d) = s \<Longrightarrow> thread_conf s a t \<Longrightarrow> next_op t = None \<Longrightarrow> thread_conf s a (settle d t)"
  by (cases "(d, t)" rule: settle.cases) (auto simp: conf_iteration)

lemma conf_advance:
  "thread_conf s a t \<Longrightarrow> next_op t = Some o' \<Longrightarrow> \<exists>x. moves s a o' r x \<and> thread_conf s x (advance r t)"
  by (cases t rule: next_op.cases) (auto simp: conforms.simps(2) dest: moves_worker)

end
