(* ===== verification/System_Board.thy ===== *)
theory System_Board
  imports Conformance Scenarios
begin

text \<open>
  The running service refines the board machine: over any dedicated Redis, whatever the
  interleaving, each step of the service is simulated by acts of the machine, and the board
  shown by Redis is the board of the machine.
\<close>

section \<open>The simulation\<close>

lemma implements_issued: "implements s nid cs e \<Longrightarrow> fst ` issued e \<subseteq> {nid}"
  by (induction rule: implements.induct) simp_all

lemma disjoint_fresh: "A \<subseteq> {n} \<Longrightarrow> B \<subseteq> U \<Longrightarrow> n \<notin> U \<Longrightarrow> A \<inter> B = {}"
  by blast

lemma first_components: "A \<subseteq> (\<lambda>x. (f x, g x)) ` B \<Longrightarrow> f ` B \<subseteq> U \<Longrightarrow> fst ` A \<subseteq> U"
  by force

lemma issued_on_board: "issued e \<subseteq> set (messages_of (board_apply e b))"
  by (cases e) simp_all

text \<open>The messages on a board whose job is finished there.\<close>

definition finished_messages :: "board \<Rightarrow> (string \<times> string) set" where
  "finished_messages b = {q \<in> set (messages_of b). finished b (snd q)}"

lemma closing_finished: "closing b (closes e) \<subseteq> finished_messages (board_apply e b)"
  by (cases e) (auto simp: closing_def finished_messages_def finished_def set_entry_def)

lemma messages_board: "set (messages_of (board_of t (b, st))) = (\<lambda>x. (x_id x, hget (x_values x) fieldJobID)) ` set st"
  by simp

lemma pairs_toXMessages:
  "message_pairs (toXMessages xs) = (\<lambda>x. (x_id x, hget (x_values x) fieldJobID)) ` set xs"
  by (simp add: message_pairs_def toXMessages_def image_image)

lemma pairs_toMessages: "message_pairs (toMessages res) = (\<Union>(k, xs) \<in> set res. message_pairs (toXMessages xs))"
  by (induction res rule: toMessages.induct) (simp_all add: message_pairs_def image_Un split_beta)

lemma finished_board: "finished (board_of t (b, st)) jid \<longleftrightarrow> live t b (jobKey jid) = []
    \<or> job_Status (job_of_hash jid (live t b (jobKey jid))) = StatusCompleted
    \<or> job_Status (job_of_hash jid (live t b (jobKey jid))) = StatusFailed"
  by (simp add: finished_def shown_def)

lemma length_board: "length (messages_of (board_of t (b, st))) = length st"
  by simp

declare board_of.simps [simp del] board_apply.simps [simp del]

locale board_service = dedicated_redis E now db stream next_id used
  for E :: "'e \<Rightarrow> op \<Rightarrow> reply \<times> 'e" and now db stream next_id used +
  fixes d :: deployment
  assumes one_store: "pool_store (dep_pool d) = srv_store (dep_server d)"
    and ttl: "0 < jobTTL (srv_store (dep_server d))"
begin

abbreviation st :: store where "st \<equiv> srv_store (dep_server d)"

abbreviation board_at :: "'e world \<Rightarrow> board" where
  "board_at w \<equiv> board_of (now (ext w)) (data_of w)"

definition agrees :: "machine \<Rightarrow> 'e world \<Rightarrow> bool" where
  "agrees m w \<longleftrightarrow> job_board m = board_at w \<and> fst ` ledger m \<subseteq> used (ext w)"

text \<open>The machine can follow to a world, with its agents as given.\<close>

definition follows :: "machine \<Rightarrow> 'e world \<Rightarrow> agent list \<Rightarrow> machine \<Rightarrow> act list \<Rightarrow> bool" where
  "follows m w ags m' ls \<longleftrightarrow> history (queueSize st) m ls m' \<and> agrees m' w \<and> agents m' = ags
     \<and> (redis_up E \<longrightarrow> (\<forall>l \<in> set ls. \<not> faulty l))
     \<and> closed_messages m' \<subseteq> closed_messages m \<union> finished_messages (board_at w)
     \<and> load m' \<le> max (load m) (queueSize st - 1 + int (waiting m'))"

lemma step_used: "used (ext w) \<subseteq> used (ext (snd (step_op E w o')))"
proof (cases "external o' \<or> o' = OGate")
  case True
  have "ext (snd (step_op E w OGate)) = snd (E (ext w) OGate)"
    by (simp add: world_simps Let_def split: prod.split)
  with True show ?thesis using used_grows [of "ext w" o'] by (auto simp: step_op_external)
next
  case False
  then show ?thesis by (cases o') (simp_all add: world_simps Let_def split: prod.split)
qed

text \<open>First time passes, then the machine acts on the data of before.\<close>

lemma follow_act:
  assumes "agrees m w" and "now (ext w) \<le> t"
    and "\<And>m1. m1 = m\<lparr>job_board := board_of t (data_of w)\<rparr> \<Longrightarrow> acts (queueSize st) m1 l m'"
    and "agrees m' w'" and "agents m' = ags" and "redis_up E \<Longrightarrow> \<not> faulty l"
    and "closed_messages m' \<subseteq> closed_messages m \<union> finished_messages (board_at w')"
  shows "\<exists>ls. follows m w' ags m' ls"
proof -
  from board_later [OF assms(2), of "data_of w"] obtain gone where
    "board_of t (data_of w) = board_apply (Expired gone) (job_board m)" using assms(1) by (auto simp: agrees_def)
  then have "acts (queueSize st) m (Passes gone) (m\<lparr>job_board := board_of t (data_of w)\<rparr>)"
    using acts.passes [of "queueSize st" m gone] by simp
  moreover have "load (m\<lparr>job_board := board_of t (data_of w)\<rparr>) = load m"
    using assms(1) by (simp add: load_def waiting_def agrees_def length_board)
  with acts_load [OF assms(3) [OF refl]] have "load m' \<le> max (load m) (queueSize st - 1 + int (waiting m'))" by simp
  ultimately show ?thesis using history.more [OF history_one assms(3) [OF refl]] assms(4-7)
    by (intro exI [of _ "[Passes gone, l]"]) (simp add: follows_def)
qed

text \<open>A step that leaves the data alone is simulated by time alone.\<close>

lemma follow_time:
  assumes "agrees m w" and "now (ext w) \<le> now (ext w')" and "data_of w' = data_of w"
    and "used (ext w) \<subseteq> used (ext w')"
  shows "\<exists>m' ls. follows m w' (agents m) m' ls"
proof -
  from board_later [OF assms(2), of "data_of w"] obtain gone where
    g: "board_at w' = board_apply (Expired gone) (job_board m)" using assms(1,3) by (auto simp: agrees_def)
  let ?m = "m\<lparr>job_board := board_at w'\<rparr>"
  have "acts (queueSize st) m (Passes gone) ?m" using acts.passes [of "queueSize st" m gone] g by simp
  from history_one [OF this] assms(1,3,4) have "follows m w' (agents m) ?m [Passes gone]"
    by (auto simp: follows_def agrees_def load_def waiting_def length_board)
  then show ?thesis by blast
qed

text \<open>A read.\<close>

lemma follow_read:
  assumes "agrees m w" and "tx_of o' = None" and "step_op E w o' = (r, w')"
    and "\<And>m1. m1 = m\<lparr>job_board := board_at w'\<rparr> \<Longrightarrow> acts (queueSize st) m1 l (m1\<lparr>agents := ags, closed_messages := C\<rparr>)"
    and "redis_up E \<Longrightarrow> \<not> faulty l" and "C \<subseteq> closed_messages m \<union> finished_messages (board_at w')"
  shows "\<exists>m' ls. follows m w' ags m' ls"
proof -
  from step_other [OF assms(2), of w] assms(3) have s: "now (ext w) \<le> now (ext w')" "data_of w' = data_of w" by auto
  from step_used [of w o'] assms(3) have u: "used (ext w) \<subseteq> used (ext w')" by simp
  let ?m = "m\<lparr>job_board := board_at w', agents := ags, closed_messages := C\<rparr>"
  have "\<exists>ls. follows m w' ags ?m ls"
  proof (rule follow_act [OF assms(1) s(1)])
    show "acts (queueSize st) m1 l ?m" if "m1 = m\<lparr>job_board := board_of (now (ext w')) (data_of w)\<rparr>" for m1
      using assms(4) [of m1] that s(2) by simp
    show "agrees ?m w'" using assms(1) u by (auto simp: agrees_def)
  qed (use assms(5,6) in auto)
  then show ?thesis by blast
qed

text \<open>A transaction: its event takes effect, or it fails.\<close>

lemma follow_tx:
  assumes "agrees m w" and "i < length (agents m)" and "step_op E w (OTx cs) = (r, w')"
    and tries: "\<And>nid. \<exists>e. implements st nid cs e \<and> attempts (agents m ! i) e x"
  shows "\<exists>m' ls. follows m w' ((agents m)[i := x]) m' ls"
proof -
  let ?nid = "next_id (ext w)" and ?ags = "(agents m)[i := x]"
  from assms(3) have r: "r = fst (E (ext w) (OTx cs))" and w': "w' = w\<lparr>ext := snd (E (ext w) (OTx cs))\<rparr>"
    by (simp_all add: step_op_external)
  have t: "now (ext w) \<le> now (ext w')" and u: "used (ext w) \<subseteq> used (ext w')"
    using now_mono used_grows by (simp_all add: w')
  from tries obtain e where e: "implements st ?nid cs e" "attempts (agents m ! i) e x" by blast
  let ?b = "board_of (now (ext w')) (data_of w)"
  show ?thesis
  proof (cases "data_of w' = exec_tx (now (ext w')) ?nid cs (data_of w)")
    case True
    then have b: "board_at w' = board_apply e ?b" using implements_step [OF e(1) ttl] by simp
    have new: "fst ` issued e \<inter> fst ` ledger m = {}"
      using assms(1) by (intro disjoint_fresh [OF implements_issued [OF e(1)] _ never_reused]) (simp add: agrees_def)
    have "issued e \<subseteq> set (messages_of (board_at w'))" unfolding b by (rule issued_on_board)
    then have iu: "fst ` issued e \<subseteq> used (ext w')"
      unfolding messages_board by (rule first_components [OF _ stream_used])
    let ?m = "m\<lparr>job_board := board_at w', agents := ?ags, ledger := ledger m \<union> issued e,
        closed_messages := closed_messages m \<union> closing ?b (closes e)\<rparr>"
    have "\<exists>ls. follows m w' ?ags ?m ls"
    proof (rule follow_act [OF assms(1) t, where l = "Does i e"])
      show "acts (queueSize st) m1 (Does i e) ?m" if "m1 = m\<lparr>job_board := ?b\<rparr>" for m1
        using acts.does [of i m1 e x "queueSize st"] assms(2) e(2) new by (simp add: that b)
      show "agrees ?m w'" using assms(1) u iu by (auto simp: agrees_def)
      show "closed_messages ?m \<subseteq> closed_messages m \<union> finished_messages (board_at w')"
        unfolding b using closing_finished by auto
    qed simp_all
    then show ?thesis by blast
  next
    case False
    with whole [of "ext w" cs] w' have same: "data_of w' = data_of w" by auto
    from False tx [of "ext w" cs] w' r have "r \<noteq> RErr None" by auto
    then have down: "\<not> redis_up E" by (auto simp: redis_up_def r)
    let ?m = "m\<lparr>job_board := board_at w', agents := ?ags\<rparr>"
    have "\<exists>ls. follows m w' ?ags ?m ls"
    proof (rule follow_act [OF assms(1) t, where l = "Fails i e"])
      show "acts (queueSize st) m1 (Fails i e) ?m" if "m1 = m\<lparr>job_board := ?b\<rparr>" for m1
        using acts.fails [of i m1 e x "queueSize st"] assms(2) e(2) same by (simp add: that)
      show "agrees ?m w'" using assms(1) u by (auto simp: agrees_def)
    qed (use down in auto)
    then show ?thesis by blast
  qed
qed

lemma follow_op:
  assumes "agrees m w" and "i < length (agents m)" and "step_op E w o' = (r, w')"
    and "moves st (agents m ! i) o' r x"
  shows "\<exists>m' ls. follows m w' ((agents m)[i := x]) m' ls"
  using assms(4)
proof cases
  case quiet
  from step_other [OF quiet(2), of w] step_used [of w o'] assms(3)
  have "now (ext w) \<le> now (ext w')" "data_of w' = data_of w" "used (ext w) \<subseteq> used (ext w')" by auto
  from follow_time [OF assms(1) this] quiet(1) show ?thesis by simp
next
  case (look q ms)
  let ?jid = "JobID q" and ?ag = "\<lambda>st. (agents m)[i := Worker st (q # ms)]"
  from assms(3) have r: "r = fst (E (ext w) (OHGetAll (jobKey ?jid)))"
    and w': "w' = w\<lparr>ext := snd (E (ext w) (OHGetAll (jobKey ?jid)))\<rparr>" unfolding look(2) by (simp_all add: step_op_external)
  have same: "data_of w' = data_of w" using frame [of "OHGetAll (jobKey ?jid)" "ext w"] by (simp add: w')
  show ?thesis
  proof (cases "as_hashE r")
    case (Inl er)
    have "\<not> redis_up E"
    proof
      assume "redis_up E"
      then obtain fs where "r = RHashE (Inr fs)" unfolding redis_up_def r by blast
      with Inl show False by simp
    qed
    then have "\<exists>m' ls. follows m w' (?ag Dismissed) m' ls"
      using acts.misreads [of i "m\<lparr>job_board := board_at w'\<rparr>" q ms "queueSize st"] assms(2) look(1)
      by (intro follow_read [OF assms(1) _ assms(3), where l = "Misreads i" and C = "closed_messages m"]) (simp_all add: look(2))
    with Inl show ?thesis by (simp add: look(3) dismissing_def)
  next
    case (Inr fs)
    then have "r = RHashE (Inr fs)" by (cases r) simp_all
    with hgetall [of "ext w" "jobKey ?jid" fs] r have "fs = live (now (ext w')) (db (ext w)) (jobKey ?jid)" by (simp add: w')
    with Inr same have fin: "dismissing ?jid r \<longleftrightarrow> finished (board_at w') ?jid"
      by (auto simp: dismissing_def finished_board)
    have "\<exists>m' ls. follows m w' (?ag (if dismissing ?jid r then Dismissed else Loaded)) m' ls"
    proof (rule follow_read [OF assms(1) _ assms(3), where l = "Checks i"])
      fix m1 assume m1: "m1 = m\<lparr>job_board := board_at w'\<rparr>"
      show "acts (queueSize st) m1 (Checks i) (m1\<lparr>agents := ?ag (if dismissing ?jid r then Dismissed else Loaded),
          closed_messages := closed_messages m \<union> closing (board_at w') (if dismissing ?jid r then {?jid} else {})\<rparr>)"
        using acts.checks [of i m1 q ms "dismissing ?jid r" "queueSize st"] assms(2) look(1) fin by (simp add: m1)
    qed (auto simp: look(2) fin closing_def finished_messages_def)
    with look(3) show ?thesis by simp
  qed
next
  case (fetch g c n bl)
  let ?ms = "case as_streamsE r of Inl _ \<Rightarrow> [] | Inr res \<Rightarrow> toMessages res"
  from assms(3) have r: "r = fst (E (ext w) (OXReadGroup g c streamKey n bl))" unfolding fetch(2) by (simp add: step_op_external)
  have "message_pairs ?ms \<subseteq> set (messages_of (board_at w))"
  proof (cases "as_streamsE r")
    case (Inr res)
    then have "r = RStreamsE (Inr res)" by (cases r) simp_all
    with reads [of "ext w" g c n bl res] r have "set xs \<subseteq> set (stream (ext w))" if "(k, xs) \<in> set res" for k xs
      using that by simp
    then show ?thesis unfolding Inr messages_board by (fastforce simp: pairs_toMessages pairs_toXMessages)
  qed (simp add: message_pairs_def)
  moreover have "data_of w' = data_of w" using step_other [of o' w] assms(3) by (simp add: fetch(2))
  ultimately have sub: "message_pairs ?ms \<subseteq> set (messages_of (board_at w'))" by (simp add: messages_board)
  show ?thesis unfolding fetch(3)
    using acts.picks [of i "m\<lparr>job_board := board_at w'\<rparr>" ?ms "queueSize st"] assms(2) fetch(1) sub
    by (intro follow_read [OF assms(1) _ assms(3), where l = "Picks i ?ms" and C = "closed_messages m"]) (simp_all add: fetch(2))
next
  case (claim g c idle start n)
  let ?ms = "case as_messagesE r of Inl _ \<Rightarrow> [] | Inr msgs \<Rightarrow> toXMessages msgs"
  from assms(3) have r: "r = fst (E (ext w) (OXAutoClaim streamKey g c idle start n))" unfolding claim(2) by (simp add: step_op_external)
  have "message_pairs ?ms \<subseteq> set (messages_of (board_at w))"
  proof (cases "as_messagesE r")
    case (Inr res)
    then have "r = RMessagesE (Inr res)" by (cases r) simp_all
    with claims [of "ext w" g c idle start n res] r have "set res \<subseteq> set (stream (ext w))" by simp
    then show ?thesis unfolding Inr messages_board by (auto simp: pairs_toXMessages)
  qed (simp add: message_pairs_def)
  moreover have "data_of w' = data_of w" using step_other [of o' w] assms(3) by (simp add: claim(2))
  ultimately have sub: "message_pairs ?ms \<subseteq> set (messages_of (board_at w'))" by (simp add: messages_board)
  show ?thesis unfolding claim(3)
    using acts.picks [of i "m\<lparr>job_board := board_at w'\<rparr>" ?ms "queueSize st"] assms(2) claim(1) sub
    by (intro follow_read [OF assms(1) _ assms(3), where l = "Picks i ?ms" and C = "closed_messages m"]) (simp_all add: claim(2))
next
  case (admit n)
  from assms(3) have r: "r = fst (E (ext w) (OXLen streamKey))" unfolding admit(2) by (simp add: step_op_external)
  from admit(4) have "r = RIntE (Inr n)" by (cases r) simp_all
  with xlen [of "ext w" n] r have "n = int (length (stream (ext w)))" by simp
  moreover have "data_of w' = data_of w" using step_other [of o' w] assms(3) by (simp add: admit(2))
  ultimately have cap: "int (length (messages_of (board_at w'))) < queueSize st" using admit(5) by (simp add: length_board)
  show ?thesis unfolding admit(3)
    using acts.admits [of i "m\<lparr>job_board := board_at w'\<rparr>" "queueSize st"] assms(2) admit(1) cap
    by (intro follow_read [OF assms(1) _ assms(3), where l = "Admits i" and C = "closed_messages m"]) (simp_all add: admit(2))
next
  case (attempt cs)
  from follow_tx [OF assms(1,2) assms(3) [unfolded attempt(1)] attempt(2)] show ?thesis .
qed

section \<open>Steps of the service\<close>

definition matches :: "machine \<Rightarrow> 'e sys \<Rightarrow> bool" where
  "matches m c \<longleftrightarrow> list_all2 (thread_conf st) (agents m) (procs c) \<and> agrees m (shared c)"

lemma follows_same: "agrees m w \<Longrightarrow> follows m w (agents m) m []"
  by (auto simp: follows_def)

lemma sim_step:
  assumes "matches m c" and "step E d c c'"
  shows "\<exists>m' ls. follows m (shared c') (agents m') m' ls \<and> matches m' c'"
  using assms(2)
proof cases
  case (perform i o' r w')
  from assms(1) have conf: "list_all2 (thread_conf st) (agents m) (procs c)" and w: "agrees m (shared c)"
    by (simp_all add: matches_def)
  from conf perform(2) have il: "i < length (agents m)" by (simp add: list_all2_lengthD)
  from conf_advance [OF list_all2_nthD [OF conf il] perform(3), of r] obtain x where
    x: "moves st (agents m ! i) o' r x" "thread_conf st x (advance r (procs c ! i))" by blast
  from follow_op [OF w il perform(5) x(1)] obtain m' ls where f: "follows m w' ((agents m)[i := x]) m' ls" by blast
  then have "agents m' = (agents m)[i := x]" "agrees m' w'" by (simp_all add: follows_def)
  moreover from conf x(2) have "list_all2 (thread_conf st) ((agents m)[i := x]) ((procs c)[i := advance r (procs c ! i)])"
    by (rule list_all2_update_cong)
  ultimately show ?thesis using f by (intro exI [of _ m'] exI [of _ ls]) (simp add: matches_def perform(1))
next
  case (turn_over i)
  from assms(1) have conf: "list_all2 (thread_conf st) (agents m) (procs c)" and w: "agrees m (shared c)"
    by (simp_all add: matches_def)
  from conf turn_over(2) have il: "i < length (agents m)" by (simp add: list_all2_lengthD)
  from list_all2_update_cong [OF conf conf_settle [OF one_store list_all2_nthD [OF conf il] turn_over(3)], of i]
  have "list_all2 (thread_conf st) (agents m) ((procs c)[i := settle d (procs c ! i)])" by simp
  then show ?thesis using follows_same [OF w]
    by (intro exI [of _ m] exI [of _ "[]"]) (simp add: matches_def turn_over(1) w)
next
  case (arrive r)
  from assms(1) have conf: "list_all2 (thread_conf st) (agents m) (procs c)" and w: "agrees m (shared c)"
    by (simp_all add: matches_def)
  let ?m = "m\<lparr>agents := agents m @ [Client]\<rparr>"
  from list_all2_appendI [OF conf, of "[Client]" "[request d r]"]
  have "list_all2 (thread_conf st) (agents ?m) (procs c @ [request d r])" by (simp add: conf_request)
  moreover have "follows m (shared c) (agents ?m) ?m [Joins]"
    using w history_one [OF acts.joins] by (auto simp: follows_def agrees_def load_def waiting_def)
  ultimately show ?thesis
    by (intro exI [of _ ?m] exI [of _ "[Joins]"]) (simp add: matches_def arrive follows_def)
qed

text \<open>
  A run of the service from a matched state: the history of the machine, and a state of the
  service for every message that was closed_messages meanwhile.
\<close>

definition closed_between :: "'e sys \<Rightarrow> 'e sys \<Rightarrow> (string \<times> string) set" where
  "closed_between c c' = {q. \<exists>c1. (step E d)\<^sup>*\<^sup>* c c1 \<and> (step E d)\<^sup>*\<^sup>* c1 c' \<and> q \<in> finished_messages (board_at (shared c1))}"

lemma sim_run:
  "(step E d)\<^sup>*\<^sup>* c c' \<Longrightarrow> matches m c \<Longrightarrow> \<exists>m' ls. history (queueSize st) m ls m' \<and> matches m' c'
     \<and> (redis_up E \<longrightarrow> (\<forall>l \<in> set ls. \<not> faulty l)) \<and> closed_messages m' \<subseteq> closed_messages m \<union> closed_between c c'"
proof (induction rule: rtranclp_induct)
  case base
  then show ?case by (intro exI [of _ m] exI [of _ "[]"]) auto
next
  case (step c1 c2)
  from step.IH [OF step.prems] obtain m1 ls where h: "history (queueSize st) m ls m1" and m1: "matches m1 c1"
    and f: "redis_up E \<longrightarrow> (\<forall>l \<in> set ls. \<not> faulty l)" and cl: "closed_messages m1 \<subseteq> closed_messages m \<union> closed_between c c1" by blast
  from sim_step [OF m1 step.hyps(2)] obtain m2 ls' where fo: "follows m1 (shared c2) (agents m2) m2 ls'"
    and m2: "matches m2 c2" by blast
  have "closed_between c c1 \<subseteq> closed_between c c2"
    using step.hyps(2) by (auto simp: closed_between_def intro: rtranclp.rtrancl_into_rtrancl)
  moreover have "finished_messages (board_at (shared c2)) \<subseteq> closed_between c c2"
    using step.hyps by (auto simp: closed_between_def intro: rtranclp.rtrancl_into_rtrancl)
  ultimately have "closed_messages m2 \<subseteq> closed_messages m \<union> closed_between c c2" using fo cl by (auto simp: follows_def)
  moreover have "history (queueSize st) m (ls @ ls') m2" using history_append h fo by (auto simp: follows_def)
  ultimately show ?case using f fo m2 by (intro exI [of _ m2] exI [of _ "ls @ ls'"]) (auto simp: follows_def)
qed

abbreviation machine_init :: "'e \<Rightarrow> machine" where
  "machine_init e \<equiv> machine_start (board_of (now e) (db e, stream e)) (length (Run (dep_pool d)))"

lemma init_matches: "matches (machine_init e) (init_sys d e)"
proof -
  have "list_all2 (thread_conf st) (replicate (length gs) (Worker Fresh [])) (map (\<lambda>g. iteration d g False) gs)" for gs
    by (induction gs) (simp_all add: conf_iteration one_store)
  moreover have "fst ` set (messages_of (board_of (now e) (db e, stream e))) \<subseteq> used e"
    using stream_used [of e] by (auto simp: messages_board)
  ultimately show ?thesis by (simp add: matches_def agrees_def machine_start_def init_sys_def init_world_def)
qed

lemma service_refines:
  assumes "(step E d)\<^sup>*\<^sup>* (init_sys d e) c"
  shows "\<exists>ls m. history (queueSize st) (machine_init e) ls m \<and> job_board m = board_at (shared c)
    \<and> length (agents m) = length (procs c) \<and> (redis_up E \<longrightarrow> (\<forall>l \<in> set ls. \<not> faulty l))"
proof -
  from sim_run [OF assms init_matches] obtain m ls where "history (queueSize st) (machine_init e) ls m" "matches m c"
    "redis_up E \<longrightarrow> (\<forall>l \<in> set ls. \<not> faulty l)" by blast
  then show ?thesis by (intro exI [of _ ls] exI [of _ m]) (auto simp: matches_def agrees_def dest: list_all2_lengthD)
qed

lemma service_board_ok:
  assumes "(step E d)\<^sup>*\<^sup>* (init_sys d e) c" and "board_ok (board_of (now e) (db e, stream e))"
  shows "board_ok (board_at (shared c))"
proof -
  from service_refines [OF assms(1)] obtain ls m where "history (queueSize st) (machine_init e) ls m"
    "job_board m = board_at (shared c)" by blast
  with history_ok [OF this(1)] assms(2) show ?thesis by (simp add: machine_start_def)
qed

lemma service_keeps_messages:
  assumes "redis_up E" and "distinct (map x_id (stream e))"
    and "(step E d)\<^sup>*\<^sup>* (init_sys d e) c1" and "(step E d)\<^sup>*\<^sup>* c1 c2"
    and "q \<in> set (messages_of (board_at (shared c1)))"
  shows "q \<in> set (messages_of (board_at (shared c2))) \<or> q \<in> closed_between (init_sys d e) c2"
proof -
  let ?m0 = "machine_init e"
  have s0: "ledger_sound ?m0"
    using assms(2) by (intro start_sound) (simp add: board_of.simps o_def)
  from sim_run [OF assms(3) init_matches] obtain m1 l1 where h1: "history (queueSize st) ?m0 l1 m1"
    and m1: "matches m1 c1" and f1: "redis_up E \<longrightarrow> (\<forall>l \<in> set l1. \<not> faulty l)"
    and k1: "closed_messages m1 \<subseteq> closed_messages ?m0 \<union> closed_between (init_sys d e) c1" by blast
  from sim_run [OF assms(4) m1] obtain m2 l2 where h2: "history (queueSize st) m1 l2 m2" and m2: "matches m2 c2"
    and f2: "redis_up E \<longrightarrow> (\<forall>l \<in> set l2. \<not> faulty l)" and k2: "closed_messages m2 \<subseteq> closed_messages m1 \<union> closed_between c1 c2" by blast
  from history_append [OF h2 h1] have h: "history (queueSize st) ?m0 (l1 @ l2) m2" .
  from history_custody [OF h s0 start_custody] f1 f2 assms(1) have cu: "custody m2" by auto
  from assms(5) m1 have "q \<in> set (messages_of (job_board m1))" by (simp add: matches_def agrees_def)
  with history_ledger [OF h1 s0] history_grows [OF h2] have "q \<in> ledger m2" by (auto simp: ledger_sound_def)
  with cu have "q \<in> set (messages_of (job_board m2)) \<or> q \<in> closed_messages m2" by (auto simp: custody_def)
  moreover have "closed_messages ?m0 = {}" by (simp add: machine_start_def)
  moreover have "closed_between (init_sys d e) c1 \<subseteq> closed_between (init_sys d e) c2"
    and "closed_between c1 c2 \<subseteq> closed_between (init_sys d e) c2"
    using assms(3,4) by (auto simp: closed_between_def intro: rtranclp_trans)
  ultimately have "q \<in> set (messages_of (job_board m2)) \<or> q \<in> closed_between (init_sys d e) c2"
    using k1 k2 by blast
  then show ?thesis using m2 by (simp add: matches_def agrees_def)
qed

text \<open>A run in which at most \<open>k\<close> requests are being served at a time.\<close>

definition few :: "nat \<Rightarrow> 'e sys \<Rightarrow> 'e sys \<Rightarrow> bool" where
  "few k c c' \<longleftrightarrow> step E d c c' \<and> length (filter serving (procs c')) \<le> k"

lemma waiting_serving: "list_all2 (thread_conf s) as ts
    \<Longrightarrow> length (filter (\<lambda>x. x = Admitted) as) \<le> length (filter serving ts)"
  by (induction rule: list_all2_induct) (auto dest: conf_admitted)

lemma service_load:
  "(few k)\<^sup>*\<^sup>* c c' \<Longrightarrow> matches m c
    \<Longrightarrow> \<exists>m'. matches m' c' \<and> load m' \<le> max (load m) (queueSize st - 1 + int k)"
proof (induction rule: rtranclp_induct)
  case (step c1 c2)
  from step.IH [OF step.prems] obtain m1 where m1: "matches m1 c1"
    and l: "load m1 \<le> max (load m) (queueSize st - 1 + int k)" by blast
  from step.hyps(2) have st: "step E d c1 c2" and k: "length (filter serving (procs c2)) \<le> k" by (simp_all add: few_def)
  from sim_step [OF m1 st] obtain m2 ls where f: "follows m1 (shared c2) (agents m2) m2 ls" and m2: "matches m2 c2" by blast
  from m2 waiting_serving [of st "agents m2" "procs c2"] k have "waiting m2 \<le> k"
    by (simp add: matches_def waiting_def)
  moreover from f have "load m2 \<le> max (load m1) (queueSize st - 1 + int (waiting m2))" by (simp add: follows_def)
  ultimately have "load m2 \<le> max (load m) (queueSize st - 1 + int k)" using l by linarith
  with m2 show ?case by blast
qed auto

lemma service_queue:
  assumes "(few k)\<^sup>*\<^sup>* (init_sys d e) c"
  shows "int (length (stream (ext (shared c)))) \<le> max (int (length (stream e))) (queueSize st - 1 + int k)"
proof -
  from service_load [OF assms init_matches] obtain m where m: "matches m c"
    and l: "load m \<le> max (load (machine_init e)) (queueSize st - 1 + int k)" by blast
  from m have "job_board m = board_at (shared c)" by (simp add: matches_def agrees_def)
  then have "int (length (stream (ext (shared c)))) \<le> load m" by (simp add: load_def length_board)
  also have "load (machine_init e) = int (length (stream e))"
    by (simp add: load_def waiting_def machine_start_def length_board)
  with l have "load m \<le> max (int (length (stream e))) (queueSize st - 1 + int k)" by simp
  finally show ?thesis .
qed

end

end
