(* ===== verification/Board_Properties.thy ===== *)
theory Board_Properties
  imports System_Board
begin

text \<open>
  What the refinement gives of the running service: the history behind every reachable
  state, the custody of messages, the states a poll can show, and the length of the queue.
\<close>

section \<open>An example of the interface\<close>

interpretation ex_service: board_service num_env "\<lambda>x. r_now (fst x)" "\<lambda>x. r_db (fst x)" "\<lambda>x. r_stream (fst x)"
    "\<lambda>x. fresh_id (renumber x)" num_used ex_dep
  by unfold_locales (simp_all add: ex_dep_def ex_pool_def ex_server_def Hour_def)

text \<open>An upload that is enqueued, and then taken, transcribed and removed.\<close>

lemma num_upload_run:
  "\<exists>c1 c2. exec_moves num_env ex_dep ([Arrive upload_request] @ go 6 2) (init_sys ex_dep (ref_state, 0)) = Some c1
    \<and> map x_values (r_stream (fst (ext (shared c1)))) = [[(fieldJobID, ex_jid)]]
    \<and> exec_moves num_env ex_dep (go 17 0) c1 = Some c2 \<and> r_stream (fst (ext (shared c2))) = []"
  unfolding init_ex unfolding init_world_def ref_state_def
  by (simp add: num_env_sound scenario_rules cong: Op_lazy bind_lazy del: exec_moves.simps(2))

lemma num_upload_states:
  "\<exists>c1 c2 x. (step num_env ex_dep)\<^sup>*\<^sup>* (init_sys ex_dep (ref_state, 0)) c1 \<and> (step num_env ex_dep)\<^sup>*\<^sup>* c1 c2
    \<and> r_stream (fst (ext (shared c1))) = [x] \<and> hget (x_values x) fieldJobID = ex_jid
    \<and> r_stream (fst (ext (shared c2))) = []"
proof -
  from num_upload_run obtain c1 c2 where c:
    "exec_moves num_env ex_dep ([Arrive upload_request] @ go 6 2) (init_sys ex_dep (ref_state, 0)) = Some c1"
    "map x_values (r_stream (fst (ext (shared c1)))) = [[(fieldJobID, ex_jid)]]"
    "exec_moves num_env ex_dep (go 17 0) c1 = Some c2" "r_stream (fst (ext (shared c2))) = []"
    by (elim exE conjE) (rule that)
  from c(2) obtain x where "r_stream (fst (ext (shared c1))) = [x]" "x_values x = [(fieldJobID, ex_jid)]" by auto
  then show ?thesis using exec_moves_steps [OF c(1)] exec_moves_steps [OF c(3)] c(4)
    by (intro exI [of _ c1] exI [of _ c2] exI [of _ x]) simp
qed

lemma num_upload_end: "\<exists>c. (step num_env ex_dep)\<^sup>*\<^sup>* (init_sys ex_dep (ref_state, 0)) c \<and> r_stream (fst (ext (shared c))) = []"
  using num_upload_states rtranclp_trans by fast

lemma ex_service_assms:
  "pool_store (dep_pool ex_dep) = srv_store (dep_server ex_dep)" "0 < jobTTL (srv_store (dep_server ex_dep))"
  using ex_service.one_store ex_service.ttl by simp_all

lemma board_serviceI:
  "dedicated_redis E now db stream next_id used \<Longrightarrow> pool_store (dep_pool d) = srv_store (dep_server d)
    \<Longrightarrow> 0 < jobTTL (srv_store (dep_server d)) \<Longrightarrow> board_service E now db stream next_id used d"
  by (simp add: board_service_def board_service_axioms_def)

section \<open>Refinement\<close>

text \<open>C2: The running service refines the board machine. Over any dedicated Redis that obeys the
  laws, whatever the interleaving of goroutines and requests, the board that Redis shows in a
  state the service reaches is the board of the machine after some history of its acts, with
  one agent per goroutine and request; and while Redis answers, the history has no fault: every
  event an agent tried took effect, and no job was misread.\<close>

theorem service_refines_machine:
  fixes E :: "'e \<Rightarrow> op \<Rightarrow> reply \<times> 'e"
  assumes "dedicated_redis E now db stream next_id used"
    and "pool_store (dep_pool d) = srv_store (dep_server d)" and "0 < jobTTL (srv_store (dep_server d))"
    and "(step E d)\<^sup>*\<^sup>* (init_sys d e) c"
  shows "\<exists>ls m. history (queueSize (srv_store (dep_server d)))
      (machine_start (board_of (now e) (db e, stream e)) (length (Run (dep_pool d)))) ls m
    \<and> job_board m = board_of (now (ext (shared c))) (db (ext (shared c)), stream (ext (shared c)))
    \<and> length (agents m) = length (procs c) \<and> (redis_up E \<longrightarrow> (\<forall>l \<in> set ls. \<not> faulty l))"
  by (rule board_service.service_refines [OF board_serviceI [OF assms(1-3)] assms(4)])

theorem service_refines_machine_witness:
  "\<exists>c ls m. (step num_env ex_dep)\<^sup>*\<^sup>* (init_sys ex_dep (ref_state, 0)) c
    \<and> history 1 (machine_start (board_of 0 (Map.empty, [])) (length (Run (dep_pool ex_dep)))) ls m
    \<and> job_board m = board_of (r_now (fst (ext (shared c)))) (r_db (fst (ext (shared c))), [])
    \<and> list_all (\<lambda>l. \<not> faulty l) ls"
proof -
  from num_upload_end obtain c where c: "(step num_env ex_dep)\<^sup>*\<^sup>* (init_sys ex_dep (ref_state, 0)) c"
    "r_stream (fst (ext (shared c))) = []" by blast
  have "queueSize (srv_store (dep_server ex_dep)) = 1" by (simp add: ex_dep_def ex_server_def)
  with service_refines_machine [OF num_laws ex_service_assms c(1)] c num_up show ?thesis
    by (fastforce simp: ref_state_def list_all_iff)
qed

section \<open>Custody\<close>

text \<open>C3: No accepted job is lost while Redis answers. In any interleaving, a message that was in the
  stream at some time is in the stream later, or there was a time in between, with the message
  still in the stream, at which its job was finished: completed, failed, or expired.\<close>

theorem no_accepted_job_lost:
  fixes E :: "'e \<Rightarrow> op \<Rightarrow> reply \<times> 'e"
  assumes "dedicated_redis E now db stream next_id used"
    and "pool_store (dep_pool d) = srv_store (dep_server d)" and "0 < jobTTL (srv_store (dep_server d))"
    and "redis_up E" and "distinct (map x_id (stream e))"
    and "(step E d)\<^sup>*\<^sup>* (init_sys d e) c1" and "(step E d)\<^sup>*\<^sup>* c1 c2" and "x \<in> set (stream (ext (shared c1)))"
    and "hget (x_values x) fieldJobID = jid"
  shows "(\<exists>y \<in> set (stream (ext (shared c2))). x_id y = x_id x \<and> hget (x_values y) fieldJobID = jid)
    \<or> (\<exists>c fs. (step E d)\<^sup>*\<^sup>* (init_sys d e) c \<and> (step E d)\<^sup>*\<^sup>* c c2
        \<and> (\<exists>y \<in> set (stream (ext (shared c))). x_id y = x_id x \<and> hget (x_values y) fieldJobID = jid)
        \<and> fs = live (now (ext (shared c))) (db (ext (shared c))) (jobKey jid)
        \<and> (fs = [] \<or> hget fs ''status'' = StatusCompleted \<or> hget fs ''status'' = StatusFailed))"
proof -
  note service = board_serviceI [OF assms(1-3)]
  let ?q = "(x_id x, jid)"
  from assms(8,9) have "?q \<in> set (messages_of (board_of (now (ext (shared c1)))
      (db (ext (shared c1)), stream (ext (shared c1)))))" by (auto simp: messages_board)
  from board_service.service_keeps_messages [OF service assms(4-7) this] show ?thesis
    by (auto simp: messages_board board_service.closed_between_def [OF service] finished_messages_def
        finished_board job_of_hash_def) blast+
qed

theorem no_accepted_job_lost_witness:
  "\<exists>c fs. (step num_env ex_dep)\<^sup>*\<^sup>* (init_sys ex_dep (ref_state, 0)) c \<and> r_stream (fst (ext (shared c))) \<noteq> []
    \<and> fs = live (r_now (fst (ext (shared c)))) (r_db (fst (ext (shared c)))) (jobKey ex_jid)
    \<and> (fs = [] \<or> hget fs ''status'' = StatusCompleted \<or> hget fs ''status'' = StatusFailed)"
proof -
  from num_upload_states obtain c1 c2 x where c: "(step num_env ex_dep)\<^sup>*\<^sup>* (init_sys ex_dep (ref_state, 0)) c1"
    "(step num_env ex_dep)\<^sup>*\<^sup>* c1 c2" "r_stream (fst (ext (shared c1))) = [x]" "hget (x_values x) fieldJobID = ex_jid"
    "r_stream (fst (ext (shared c2))) = []" by blast
  have "distinct (map x_id (r_stream (fst (ref_state, 0 :: nat))))" by (simp add: ref_state_def)
  moreover have "x \<in> set (r_stream (fst (ext (shared c1))))" using c(3) by simp
  ultimately show ?thesis
    using no_accepted_job_lost [OF num_laws ex_service_assms num_up _ c(1,2) _ c(4)] c(5) by fastforce
qed

section \<open>The states a poll can show\<close>

definition hash_ok :: "(string \<times> string) list \<Rightarrow> bool" where
  "hash_ok fs \<longleftrightarrow> fs = []
     \<or> hget fs ''status'' \<in> {StatusQueued, StatusProcessing, StatusCompleted, StatusFailed}
       \<and> (hget fs ''status'' \<in> {StatusCompleted, StatusFailed} \<longrightarrow> hget fs ''completedAt'' \<noteq> [])"

lemma board_ok_iff: "board_ok (board_of t (b, st)) \<longleftrightarrow> (\<forall>jid. hash_ok (live t b (jobKey jid)))"
  by (auto simp: board_ok_def board_of.simps shown_def hash_ok_def entry_ok_def job_of_hash_def)

text \<open>C12: In every state the service reaches, faults of Redis included, a job that Redis shows is in
  one of the four states queued, processing, completed and failed, and a completed or failed
  one has its time of completion, if that was so at the start (in an empty database it is).\<close>

theorem shown_states_sound:
  fixes E :: "'e \<Rightarrow> op \<Rightarrow> reply \<times> 'e"
  assumes "dedicated_redis E now db stream next_id used"
    and "pool_store (dep_pool d) = srv_store (dep_server d)" and "0 < jobTTL (srv_store (dep_server d))"
    and "(step E d)\<^sup>*\<^sup>* (init_sys d e) c" and "\<forall>jid. hash_ok (live (now e) (db e) (jobKey jid))"
  shows "hash_ok (live (now (ext (shared c))) (db (ext (shared c))) (jobKey jid))"
  using board_service.service_board_ok [OF board_serviceI [OF assms(1-3)] assms(4)] assms(5)
  by (simp add: board_ok_iff)

theorem shown_states_sound_witness:
  "\<exists>c. (step num_env ex_dep)\<^sup>*\<^sup>* (init_sys ex_dep (ref_state, 0)) c \<and> r_stream (fst (ext (shared c))) = []
    \<and> hash_ok (live (r_now (fst (ext (shared c)))) (r_db (fst (ext (shared c)))) (jobKey ex_jid))"
proof -
  have "\<forall>jid. hash_ok (live (r_now (fst (ref_state, 0 :: nat))) (r_db (fst (ref_state, 0 :: nat))) (jobKey jid))"
    by (simp add: ref_state_def live_def hash_ok_def)
  with num_upload_end shown_states_sound [OF num_laws ex_service_assms] show ?thesis by blast
qed

section \<open>The length of the queue\<close>

text \<open>C29: Concurrent requests exceed the cap of the queue by their number less one, and no more: in a
  run in which at most \<open>k\<close> requests are between two operations at a time, the stream is never
  longer than \<open>QUEUE_SIZE - 1 + k\<close>, or than at the start. With one request at a time the cap
  is kept.\<close>

theorem queue_within_cap:
  fixes E :: "'e \<Rightarrow> op \<Rightarrow> reply \<times> 'e"
  assumes "dedicated_redis E now db stream next_id used"
    and "pool_store (dep_pool d) = srv_store (dep_server d)" and "0 < jobTTL (srv_store (dep_server d))"
    and "(\<lambda>a b. step E d a b \<and> length (filter serving (procs b)) \<le> k)\<^sup>*\<^sup>* (init_sys d e) c"
  shows "int (length (stream (ext (shared c))))
    \<le> max (int (length (stream e))) (queueSize (srv_store (dep_server d)) - 1 + int k)"
proof -
  note service = board_serviceI [OF assms(1-3)]
  have "(\<lambda>a b. step E d a b \<and> length (filter serving (procs b)) \<le> k) = board_service.few E d k"
    by (simp add: fun_eq_iff board_service.few_def [OF service])
  with assms(4) have "(board_service.few E d k)\<^sup>*\<^sup>* (init_sys d e) c" by simp
  then show ?thesis by (rule board_service.service_queue [OF service])
qed

text \<open>A schedule with few arrivals serves few requests at a time.\<close>

fun is_request :: "thread \<Rightarrow> bool" where
  "is_request (Request p) = True"
| "is_request t = False"

fun arrivals :: "move list \<Rightarrow> nat" where
  "arrivals [] = 0"
| "arrivals (Arrive r # ms) = Suc (arrivals ms)"
| "arrivals (m # ms) = arrivals ms"

lemma request_advance: "is_request (advance r t) = is_request t" and request_settle: "is_request (settle d t) \<Longrightarrow> is_request t"
  by (cases "(r, t)" rule: advance.cases; simp) (cases "(d, t)" rule: settle.cases; simp add: iteration_def)

lemma serving_request: "serving t \<Longrightarrow> is_request t"
  by (cases t rule: serving.cases) simp_all

lemma serving_requests: "length (filter serving ts) \<le> length (filter is_request ts)"
  by (induction ts) (auto dest: serving_request)

lemma requests_move:
  assumes "exec_move E d m c = Some c'"
  shows "length (filter is_request (procs c')) + arrivals ms \<le> length (filter is_request (procs c)) + arrivals (m # ms)"
proof (cases m)
  case (Run_thread i)
  with assms obtain r where i: "i < length (procs c)" and p: "procs c' = (procs c)[i := advance r (procs c ! i)]"
    by (auto split: if_splits option.splits prod.splits)
  from length_filter_update [OF i, of is_request "advance r (procs c ! i)"] show ?thesis
    by (simp add: p request_advance Run_thread)
next
  case (Turn i)
  with assms length_filter_update [of i "procs c" is_request "settle d (procs c ! i)"] request_settle [of d "procs c ! i"]
  show ?thesis by (auto split: if_splits)
next
  case (Arrive r)
  with assms show ?thesis by (auto simp: request_def)
qed

lemma exec_few:
  "exec_moves E d ms c = Some c' \<Longrightarrow> length (filter is_request (procs c)) + arrivals ms \<le> k
    \<Longrightarrow> (\<lambda>a b. step E d a b \<and> length (filter serving (procs b)) \<le> k)\<^sup>*\<^sup>* c c'"
proof (induction ms arbitrary: c)
  case (Cons m ms)
  then obtain c1 where c1: "exec_move E d m c = Some c1" "exec_moves E d ms c1 = Some c'" by (auto split: option.splits)
  from requests_move [OF c1(1), of ms] Cons.prems(2) have k: "length (filter is_request (procs c1)) + arrivals ms \<le> k" by simp
  with serving_requests [of "procs c1"] have "length (filter serving (procs c1)) \<le> k" by simp
  with exec_move_step [OF c1(1)] Cons.IH [OF c1(2) k] show ?case
    by (intro converse_rtranclp_into_rtranclp [of _ c c1]) simp_all
qed simp

theorem queue_within_cap_witness:
  "\<exists>c. (step num_env ex_dep)\<^sup>*\<^sup>* (init_sys ex_dep (ref_state, 0)) c
    \<and> length (r_stream (fst (ext (shared c)))) = 1 \<and> int (length (r_stream (fst (ext (shared c))))) \<le> max 0 1"
proof -
  from num_upload_run obtain c where c:
    "exec_moves num_env ex_dep ([Arrive upload_request] @ go 6 2) (init_sys ex_dep (ref_state, 0)) = Some c"
    "map x_values (r_stream (fst (ext (shared c)))) = [[(fieldJobID, ex_jid)]]"
    by (elim exE conjE) (rule that)
  have "arrivals (go n i) = 0" for n i by (induction n) simp_all
  then have "length (filter is_request (procs (init_sys ex_dep (ref_state, 0 :: nat)))) + arrivals ([Arrive upload_request] @ go 6 2) \<le> 1"
    by (simp add: init_ex iteration_def)
  from queue_within_cap [OF num_laws ex_service_assms exec_few [OF c(1) this]]
  have "int (length (r_stream (fst (ext (shared c))))) \<le> max 0 1"
    by (simp add: ref_state_def ex_dep_def ex_server_def)
  moreover have "length (r_stream (fst (ext (shared c)))) = 1" using arg_cong [OF c(2), of length] by simp
  ultimately show ?thesis using exec_moves_steps [OF c(1)] by blast
qed

end
