(* ===== verification/Write_Failures.thy ===== *)
theory Write_Failures
  imports Job_Board
begin

text \<open>
  What happens to a job whose outcome cannot be written: Redis takes the transactions of the
  worker but that one.
\<close>

section \<open>Runs in which some transactions fail\<close>

fun acked_tx :: "event \<Rightarrow> redis_cmd list option" where
  "acked_tx (OTx cs, RErr None) = Some cs"
| "acked_tx _ = None"

lemma acked_tx_iff: "acked_tx (o', r) = (if r = RErr None then tx_of o' else None)"
  by (cases "(o', r)" rule: acked_tx.cases) simp_all

definition acked_txs :: "event list \<Rightarrow> redis_cmd list list" where
  "acked_txs es = List.map_filter acked_tx es"

lemma acked_txs_simps [simp]:
  "acked_txs [] = []"
  "acked_txs ((o', r) # es) = (case acked_tx (o', r) of None \<Rightarrow> acked_txs es | Some cs \<Rightarrow> cs # acked_txs es)"
  by (simp_all add: acked_txs_def List.map_filter_def split: option.split)

text \<open>When the reply to a transaction depends on its commands only, the acked ones are a sublist.\<close>

lemma acked_filter:
  assumes "\<And>e cs. fst (E e (OTx cs)) = RErr None \<longleftrightarrow> P cs"
  shows "acked_txs (events (run (step_op E) p w)) = filter P (txs (ops (run (step_op E) p w)))"
proof (induction p arbitrary: w)
  case (Op o' k)
  show ?case
  proof (cases "tx_of o'")
    case None
    then show ?thesis using Op [OF rangeI] by (simp add: run_simps acked_tx_iff)
  next
    case (Some cs)
    then have "o' = OTx cs" by (cases o') simp_all
    then show ?thesis using Op [OF rangeI] by (simp add: run_simps acked_tx_iff step_op_external assms)
  qed
qed (simp add: run_simps)

context redis_server
begin

lemma run_replay_acked:
  assumes "\<And>e cs. fst (E e (OTx cs)) \<noteq> RErr None
      \<Longrightarrow> db (snd (E e (OTx cs))) = db e \<and> stream (snd (E e (OTx cs))) = stream e"
  shows "replay (now (ext w)) (acked_txs (events (run (step_op E) p w))) (data_of w)
    (now (ext (final (run (step_op E) p w)))) (data_of (final (run (step_op E) p w)))"
proof (induction p arbitrary: w)
  case (Ret x)
  show ?case by (simp add: run_simps replay.finish)
next
  case (Op o' k)
  let ?w = "snd (step_op E w o')" and ?r = "fst (step_op E w o')"
  note ih = Op.IH [OF rangeI [of k ?r], of ?w]
  show ?case
  proof (cases "acked_tx (o', ?r)")
    case None
    have "now (ext w) \<le> now (ext ?w) \<and> data_of ?w = data_of w"
    proof (cases "tx_of o'")
      case (Some cs)
      then have o': "o' = OTx cs" by (cases o') simp_all
      with None have "fst (E (ext w) (OTx cs)) \<noteq> RErr None" by (auto simp: acked_tx_iff step_op_external)
      from assms [OF this] now_mono show ?thesis by (simp add: o' step_op_external)
    qed (use step_other in blast)
    with replay_earlier [OF ih] None show ?thesis by (simp add: run_simps)
  next
    case (Some cs)
    then have o': "o' = OTx cs" and r: "?r = RErr None" by (auto simp: acked_tx_iff split: if_splits elim: tx_of.elims)
    from step_tx [OF r [unfolded o']] obtain nid where
      "now (ext w) \<le> now (ext ?w)" "nid \<notin> x_id ` set (stream (ext w))"
      "data_of ?w = exec_tx (now (ext ?w)) nid cs (data_of w)" unfolding o' by blast
    with ih have "replay (now (ext w)) (cs # acked_txs (events (run (step_op E) (k ?r) ?w))) (data_of w)
        (now (ext (final (run (step_op E) (k ?r) ?w)))) (data_of (final (run (step_op E) (k ?r) ?w)))"
      by (intro replay.transact [where nid = nid and ?t1.0 = "now (ext ?w)"]) simp_all
    with Some show ?thesis by (simp add: run_simps)
  qed
qed

end

section \<open>An outcome that cannot be written\<close>

definition writes_outcome :: "store \<Rightarrow> string \<Rightarrow> redis_cmd list \<Rightarrow> bool" where
  "writes_outcome s jid cs \<longleftrightarrow> (case cs of [HSET k fs, EXPIRE k' t] \<Rightarrow>
     k = jobKey jid \<and> cs = update_cmds s jid fs \<and> fs \<noteq> processing_fields | _ \<Rightarrow> False)"

lemma writes_outcome_simps:
  "writes_outcome s jid (update_cmds s jid fs) \<longleftrightarrow> fs \<noteq> processing_fields"
  "\<not> writes_outcome s jid (ack_cmds mid)"
  by (simp_all add: writes_outcome_def update_cmds_def ack_cmds_def)

lemma outcome_not_processing: "outcome_fields oc = Some fs \<Longrightarrow> fs \<noteq> processing_fields"
  by (cases oc) (auto simp: processing_fields_def completed_fields_def failed_fields_def status_defs)

text \<open>C24: A result that cannot be written is lost. When Redis refuses the one transaction that
  records the outcome of a job, and takes the others, \<open>handle\<close> acks and deletes the message all
  the same: no delivery will repeat the job, its audio is gone, and for the rest of its TTL it
  shows as processing, with the result it had before.\<close>

theorem failed_write_strands_job:
  fixes E up p m w
  defines "z \<equiv> run (step_op E) (handle up p m) w"
  assumes "redis_server E now db stream next_id" and "0 < jobTTL (pool_store p)"
    and "result (run (step_op E) (Get (JobID m)) (w\<lparr>in_flight := in_flight w + 1\<rparr>)) = Inr j"
    and "\<not> (job_Status j = StatusCompleted \<or> job_Status j = StatusFailed)"
    and "\<And>e cs. fst (E e (OTx cs)) = RErr None \<longleftrightarrow> \<not> writes_outcome (pool_store p) (JobID m) cs"
    and "\<And>e cs. fst (E e (OTx cs)) \<noteq> RErr None
      \<Longrightarrow> db (snd (E e (OTx cs))) = db e \<and> stream (snd (E e (OTx cs))) = stream e"
  shows "MessageID m \<notin> x_id ` set (stream (ext (final z))) \<and> clip_of (mem (final z)) (JobID m) = None
    \<and> (\<exists>t fs. now (ext w) \<le> t
        \<and> db (ext (final z)) (jobKey (JobID m)) = Some (fs, Some (t + expire_ns (jobTTL (pool_store p))))
        \<and> job_of_hash (JobID m) fs
          = (job_of_hash (JobID m) (live t (db (ext w)) (jobKey (JobID m))))\<lparr>job_Status := StatusProcessing\<rparr>)"
proof -
  let ?s = "pool_store p" and ?k = "jobKey (JobID m)"
  have "\<not> drops (result (run (step_op E) (Get (JobID m)) (snd (step_op E w (OInFlight 1)))))"
    using assms(4,5) by (simp add: drops_def phase_Terminal_iff world_simps(10))
  with handle_redis [of "step_op E" up p m w] obtain oc where "oc \<noteq> Dropped"
    and f: "filter redis_op (ops z) = outcome_ops p m oc" unfolding z_def by blast
  then obtain fs where fs: "outcome_fields oc = Some fs" by (cases oc) simp_all
  have t: "txs (ops z) = [update_cmds ?s (JobID m) processing_fields, update_cmds ?s (JobID m) fs, ack_cmds (MessageID m)]"
    using txs_filter [of "ops z"] txs_outcome [of p m oc] unfolding f fs by simp
  have "acked_txs (events z) = filter (\<lambda>cs. \<not> writes_outcome ?s (JobID m) cs) (txs (ops z))"
    unfolding z_def by (rule acked_filter) (rule assms(6))
  then have a: "acked_txs (events z) = [update_cmds ?s (JobID m) processing_fields, ack_cmds (MessageID m)]"
    using outcome_not_processing [OF fs] by (simp add: t writes_outcome_simps)
  have "replay (now (ext w)) (acked_txs (events z)) (db (ext w), stream (ext w)) (now (ext (final z)))
      (db (ext (final z)), stream (ext (final z)))"
    unfolding z_def by (rule redis_server.run_replay_acked [OF assms(2)]) (rule assms(7))
  then obtain t1 n1 t2 n2 where "now (ext w) \<le> t1" and d: "(db (ext (final z)), stream (ext (final z)))
      = exec_tx t2 n2 (ack_cmds (MessageID m)) (exec_tx t1 n1 (update_cmds ?s (JobID m) processing_fields)
          (db (ext w), stream (ext w)))"
    unfolding a by (auto elim!: replay_ConsE replay_NilE)
  moreover have "processing_fields \<noteq> []" by (simp add: processing_fields_def)
  ultimately show ?thesis
    by (auto simp: exec_update [OF _ assms(3)] exec_ack z_def handle_audio job_of_merge)
qed

text \<open>The reference Redis, with every write of an outcome timing out.\<close>

fun no_outcomes :: "redis_state \<Rightarrow> op \<Rightarrow> reply \<times> redis_state" where
  "no_outcomes s (OTx cs) =
     (if writes_outcome (pool_store ex_pool) (JobID ex_message) cs then (RErr (Some (ErrExt ''i/o timeout'')), s)
      else ref_env s (OTx cs))"
| "no_outcomes s o' = ref_env s o'"

lemma no_outcomes_laws: "redis_server no_outcomes r_now r_db r_stream fresh_id"
proof
  fix e o'
  show "r_now e \<le> r_now (snd (no_outcomes e o'))"
    using ref.now_mono [of e o'] by (cases o') simp_all
  show "tx_of o' = None \<Longrightarrow> r_db (snd (no_outcomes e o')) = r_db e \<and> r_stream (snd (no_outcomes e o')) = r_stream e"
    using ref.frame [of o' e] by (cases o') simp_all
qed (simp_all add: ref_tx_data fresh_id_fresh split: if_splits)

theorem failed_write_strands_job_witness:
  "let z = run (step_op no_outcomes) (handle (\<lambda>_. None) ex_pool ex_message) ref_loaded
   in ''1-0'' \<notin> x_id ` set (r_stream (ext (final z)))
     \<and> (\<exists>t fs. r_db (ext (final z)) (jobKey ''j'') = Some (fs, Some (t + expire_ns Hour))
           \<and> job_Status (job_of_hash ''j'' fs) = StatusProcessing)"
proof -
  let ?w = "ref_loaded\<lparr>in_flight := in_flight ref_loaded + 1\<rparr>"
  have ttl: "0 < jobTTL (pool_store ex_pool)" by (simp add: ex_pool_def Hour_def)
  have "result (run (step_op no_outcomes) (Get (JobID ex_message)) ?w) = Inr (job_of_hash ''j'' upload_hash)"
    by (simp add: result_Get step_op_external ref_loaded_def init_world_def ex_message_def live_def ref_state_def
        upload_hash_def Hour_def)
  moreover have "\<not> (job_Status (job_of_hash ''j'' upload_hash) = StatusCompleted
      \<or> job_Status (job_of_hash ''j'' upload_hash) = StatusFailed)"
    by (simp add: job_of_hash_def upload_hash_def status_defs)
  moreover have "JobID ex_message = ''j''" "MessageID ex_message = ''1-0''" "jobTTL (pool_store ex_pool) = Hour"
    by (simp_all add: ex_message_def ex_pool_def)
  ultimately show ?thesis
    using failed_write_strands_job [OF no_outcomes_laws ttl, of ex_message ref_loaded "job_of_hash ''j'' upload_hash" "\<lambda>_. None"]
    by (fastforce simp: Let_def)
qed

end
