(* ===== verification/Spec2Isabelle.thy ===== *)
theory Spec2Isabelle
  imports Worker_Properties Settings_Properties System_Properties Memory_Properties
    Stop_Properties End_To_End Board_Properties Write_Failures
begin

text \<open>
  A model of the transcription worker and its correctness.

  THE PROGRAM. An HTTP service takes audio, uploaded or by URL, puts a job on a Redis
  stream, and a pool of workers takes the jobs from the stream, fetches the audio, sends it
  to a hosted Whisper, writes the result to the hash of the job and acks the message. The
  audio of an upload lives in the memory of the process only. Clients poll the hash.

  HOW IT IS MODELLED. Pure Go functions are functions. A Go function that does I/O or
  touches shared memory is a program: a tree of operations with a continuation for every
  reply (theory \<open>Effects\<close>). One definition serves two readings: \<open>run\<close> executes a
  program alone and records its operations, and \<open>System\<close> interleaves the programs of all
  goroutines, one operation at a time; an operation is what the source makes atomic (a
  Redis command or MULTI transaction, an HTTP call, a method under the store's mutex, an
  atomic add, a select on the gate). The audio heap, the in-flight counter and the gate
  belong to the model's world; Redis, HTTP, the clock, contexts and randomness are an
  environment \<open>E\<close>, a parameter about which nothing is assumed unless a statement says so.

  THEORIES AND SOURCES.
  \<^item> \<open>Go_Prelude\<close>, \<open>Go_Strings\<close>, \<open>Go_Errors\<close>, \<open>Go_Time\<close>: what the source uses of
    the language and its library: association lists, string functions, error values with
    wrapping and \<open>errors.Is\<close>, durations, instants, RFC 3339; 64-bit wrap-around is written
    out where a value can overflow. \<open>Go_JSON\<close> reads and \<open>JSON_Encode\<close> writes JSON byte by
    byte, as \<open>encoding/json\<close> does; \<open>JSON_Strings\<close>, \<open>JSON_Numbers\<close> and \<open>JSON_Facts\<close> show that
    what is written is read back, also through the compaction of raw messages.
  \<^item> \<open>Job\<close>: \<open>internal/job/job.go\<close>. \<open>Audio_Store\<close>: \<open>internal/audio/store.go\<close>, with
    clips and byte buffers in an explicit heap, since claims depend on who aliases a buffer;
    its contract is the locale \<open>ephemeral_store\<close>. \<open>Window\<close>: \<open>internal/window/window.go\<close>.
    \<open>Config\<close>: \<open>internal/config/config.go\<close>. \<open>Redis_Store\<close>:
    \<open>internal/redisstore/store.go\<close>, one program per method. \<open>Whisper_Client\<close>:
    \<open>internal/whisper/client.go\<close>. \<open>Download\<close>: \<open>internal/worker/download.go\<close>.
    \<open>Pool\<close>, with its facts in \<open>Pool_Facts\<close>: \<open>internal/worker/pool.go\<close>; one turn of
    each endless loop is a program. \<open>Server\<close>: \<open>internal/server/server.go\<close> and
    \<open>helpers.go\<close>, with the values behind its bodies in \<open>Wire\<close>. \<open>Service\<close>: identifiers and wiring of \<open>cmd/server/main.go\<close>.
  \<^item> \<open>System\<close>: the goroutines of \<open>Run\<close> and one per request over one world, as a step
    relation with its reachable states, and schedules that execute. The locale
    \<open>thread_monitor\<close> states when a private state per thread gives an invariant of all
    reachable states; it is interpreted for the gate and the counter here (\<open>counters\<close>) and
    for the buffers in \<open>Ownership\<close> (\<open>audio\<close>).
  \<^item> \<open>Lifecycle\<close>: the rest of \<open>run\<close> and \<open>main\<close>: the root context, the two groups of
    goroutines and the shutdown sequence, as events of the process.
  \<^item> \<open>Redis_Model\<close>: what the service relies on in Redis, as the locale \<open>redis_server\<close>:
    transactions run as a whole and take effect when acknowledged, reads show the live
    fields, the clock does not go back, nothing else changes the data (one instance on a
    database of its own); \<open>dedicated_redis\<close> adds that a transaction without an acknowledgement
    ran as a whole or not at all, that the group delivers entries of the stream, and that
    identifiers are not reused. \<open>Redis_Reference\<close> is a Redis that keeps these laws, for the
    witnesses and the scenarios; \<open>Example_Env\<close> and \<open>Scenarios\<close> hold the concrete worlds.
  \<^item> \<open>Job_Board\<close>: an abstract board of jobs and messages, with its events, and the
    refinement of it by the commands the service sends. \<open>Board_Machine\<close>: the abstract machine
    of the whole service, the board and one agent per goroutine and request, with its
    invariants. \<open>Conformance\<close>: every program of the service follows its agent.
    \<open>System_Board\<close>: the simulation of the running service by the machine, in the locale
    \<open>board_service\<close>. \<open>Write_Failures\<close>: runs in which some transactions fail.

  WHAT IS SHOWN.
  \<^item> One goroutine at a time, in any environment (\<open>Worker_Properties\<close>, \<open>Api_Properties\<close>):
    the exact sequence of commands a handled message leads to, on every path; the release
    of its audio; what a stored result can be; which errors are retried, how often and with
    which pauses; what the consumer and the claimer do outside the window; what each
    endpoint answers and leaves behind. \<open>Wire_Properties\<close>: the JSON of requests and answers
    as values. \<open>Settings_Properties\<close>: the window as a rule on the
    circle of minutes, the exact time to the next opening, which settings are accepted.
  \<^item> Over any Redis with the stated laws (\<open>Queue_Properties\<close>, \<open>Job_Board\<close>): an accepted
    job is in Redis before its answer, a completed one can be read for a full TTL, handling
    a message is one life of a job on the board. \<open>Board_Properties\<close>: for all interleavings of
    workers and requests the service refines the board machine, no message leaves the stream
    before its job is finished while Redis answers, only sound states are ever shown, and the
    queue exceeds its cap by less than the number of requests served at a time. \<open>End_To_End\<close> composes the parts: from an
    accepted submission to the poll that shows its result.
  \<^item> For all interleavings, any number of workers and requests and any environment
    (\<open>System_Properties\<close>, \<open>Memory_Properties\<close>, \<open>Lifecycle_Properties\<close>,
    \<open>Stop_Properties\<close>): a start that wires what was configured, at most one
    upstream call, the bounds of the counter, a sound audio store, no data race on audio,
    stored audio untouched by others, workers that live until the context is done, a
    process that never gets stuck, whose goroutines end after the stop, and that ends with
    nothing in flight.
  \<^item> Where the program does less than its comments say, the theorem states what happens: a
    failed read loses a job, a failed write of the outcome strands it as processing, the cap of the queue is exceeded by concurrent requests, a live
    upload is claimed and declared failed, a job older than its TTL is dropped, a TTL that is
    not positive loses every job, the download limit wraps at the largest integer, a result
    reaches the client as the same JSON value but not as the same bytes.

  BOUNDS AND TERMINATION. There is no fuel: every function is total. The retry loop ends by
  the measure of attempts left, the JSON parser by the length of the input (its nesting is
  bounded by 10000 as in the library); the loops of the pool are endless in the source and are
  one turn per program, repeated by \<open>System\<close>. Schedules in \<open>Scenarios\<close> are finite lists.

  PARAMETERS. Not in the repository and arguments of the definitions: \<open>url.Parse\<close> and its
  path, \<open>time.LoadLocation\<close>, \<open>redis.ParseURL\<close>, \<open>os.Getenv\<close>, the one
  floating-point product of \<open>time.ParseDuration\<close>. The decoded multipart form is
  a field of a request.

  NOT MODELLED. Logging (no effect on the state); the encoding of multipart bodies and
  of HTTP itself; the memory statistics of \<open>/health\<close> beyond the number the
  runtime gives; a retry inside the Redis client that runs a transaction twice; the
  signal package and the listener, whose events come at any time; \<open>Close\<close>
  of the Redis client after the end of \<open>run\<close>; constant time of the key
  comparison; the unit tests, the smoke test and the deployment files.
\<close>

end
